theory Spec2Isabelle
  imports Main
begin

section \<open>Drop into editor: the controller of dropIntoEditorContribution.ts\<close>

text \<open>
  The file under verification is one class, \<open>DropIntoEditorController\<close>, with three
  asynchronous methods: \<open>onDropIntoEditor\<close>, \<open>extractDataTransferData\<close> and
  \<open>applyDropResult\<close>. The embedding passes the state of the controller and of the
  editor explicitly. An asynchronous method is cut at each \<open>await\<close>: the code up to the
  await is one function, the code after it another one, and the data the continuation
  captured is stored in a \<open>phase\<close>. The host's event loop is a step function over events.

  Collaborators that are not part of the file (the bulk edit service, the text model's
  undo and decoration tracking, the snippet escaping, the drag data conversion, the
  provider registry) are fields of a record \<open>services\<close> that every function takes.
\<close>

subsection \<open>Positions, ranges, edits\<close>

record position =
  lineNumber :: nat
  column :: nat

record text_range =
  startLineNumber :: nat
  startColumn :: nat
  endLineNumber :: nat
  endColumn :: nat

text \<open>
  Modelled from the spec: \<open>Range.fromPositions\<close> (vs/editor/common/core/range) is missing
  from the sources. The code calls it with one argument; the spec calls the result
  "the original drop position collapsed to a point": the end defaults to the start.
\<close>

definition fromPositions :: "position \<Rightarrow> text_range" where
  "fromPositions p =
     \<lparr>startLineNumber = lineNumber p, startColumn = column p,
      endLineNumber = lineNumber p, endColumn = column p\<rparr>"

definition isEmptyRange :: "text_range \<Rightarrow> bool" where
  "isEmptyRange r \<longleftrightarrow>
     startLineNumber r = endLineNumber r \<and> startColumn r = endColumn r"

record text_edit =
  editRange :: text_range
  editText :: string
  insertAsSnippet :: bool

datatype workspace_sub_edit =
    ResourceTextEdit string text_edit
  | ResourceFileEdit "string option" "string option"

record WorkspaceEdit =
  edits :: "workspace_sub_edit list"

text \<open>\<open>insertText: string | { snippet: string }\<close>\<close>

datatype insert_text = PlainText string | SnippetTemplate string

record DocumentOnDropEdit =
  label :: string
  insertText :: insert_text
  additionalEdit :: "WorkspaceEdit option"

subsection \<open>Promises\<close>

text \<open>How an awaited promise settles.\<close>

datatype 'a settled = Fulfilled 'a | Rejected string

text \<open>
  \<open>Promise.all\<close>: fulfilled with all values in order when every promise is fulfilled,
  rejected as soon as one is.
\<close>

fun promiseAll :: "'a settled list \<Rightarrow> 'a list settled" where
  "promiseAll [] = Fulfilled []"
| "promiseAll (Rejected e # ps) = Rejected e"
| "promiseAll (Fulfilled v # ps) =
     (case promiseAll ps of
        Fulfilled vs \<Rightarrow> Fulfilled (v # vs)
      | Rejected e \<Rightarrow> Rejected e)"

text \<open>
  \<open>raceCancellation(promise, token)\<close> (vs/base/common/async): resolves with
  \<open>undefined\<close> when the token fires first, and settles as the promise does otherwise.
  \<open>tokenFirst\<close> is the scheduler's choice; it only counts when the token has fired.
\<close>

definition raceCancellation :: "'a settled \<Rightarrow> bool \<Rightarrow> bool \<Rightarrow> 'a option settled" where
  "raceCancellation p cancelled tokenFirst =
     (if cancelled \<and> tokenFirst then Fulfilled None
      else (case p of Fulfilled v \<Rightarrow> Fulfilled (Some v) | Rejected e \<Rightarrow> Rejected e))"

text \<open>\<open>coalesce\<close> (vs/base/common/arrays): the entries that are not null or undefined.\<close>

definition coalesce :: "'a option list \<Rightarrow> 'a list" where
  "coalesce xs = [x. Some x \<leftarrow> xs]"

subsection \<open>The drag payload\<close>

text \<open>
  Modelled from the spec: \<open>VSDataTransfer\<close> (vs/base/common/dataTransfer) is missing from
  the sources. The spec: "a mapping from mime-type string to payload value, size = number
  of entries". An association list; \<open>size\<close> counts the keys, \<open>has\<close> looks a key up.
\<close>

type_synonym VSDataTransfer = "(string \<times> string) list"

definition dt_size :: "VSDataTransfer \<Rightarrow> nat" where
  "dt_size dt = length (remdups (map fst dt))"

definition dt_has :: "VSDataTransfer \<Rightarrow> string \<Rightarrow> bool" where
  "dt_has dt mime \<longleftrightarrow> mime \<in> set (map fst dt)"

text \<open>A \<open>DragEvent\<close>: its \<open>dataTransfer\<close> may be null.\<close>

record drag_event =
  dataTransfer :: "(string \<times> string) list option"

subsection \<open>The text model, the providers and the services\<close>

text \<open>
  A text model: its URI, the document (content and undo history, owned by the editor
  and typed abstractly), and its decorations by id.
\<close>

record 'c text_model =
  uri :: string
  doc :: 'c
  decorations :: "(nat \<times> text_range) list"
  decorationIdPool :: nat

text \<open>
  Modelled from the spec: the text model's decorations are missing from the sources. The
  spec: "an in-place marker mechanism (create/query/remove range markers with edge-growth
  stickiness)". \<open>deltaDecorations([], [d])\<close> adds one decoration under a fresh id,
  \<open>getDecorationRange\<close> reads a range (null when the decoration is gone),
  \<open>deltaDecorations([id], [])\<close> removes one.
\<close>

definition addDecoration :: "text_range \<Rightarrow> 'c text_model \<Rightarrow> nat \<times> 'c text_model" where
  "addDecoration r model =
     (decorationIdPool model,
      model\<lparr>decorations := decorations model @ [(decorationIdPool model, r)],
            decorationIdPool := decorationIdPool model + 1\<rparr>)"

definition getDecorationRange :: "'c text_model \<Rightarrow> nat \<Rightarrow> text_range option" where
  "getDecorationRange model i = map_of (decorations model) i"

definition removeDecoration :: "nat \<Rightarrow> 'c text_model \<Rightarrow> 'c text_model" where
  "removeDecoration i model =
     model\<lparr>decorations := filter (\<lambda>(j, r). j \<noteq> i) (decorations model)\<rparr>"

text \<open>
  A provider: \<open>dropMimeTypes\<close> is optional; \<open>provideDocumentOnDropEdits\<close> gives how the
  returned promise settles (an edit, null/undefined, or a rejection; a provider that
  throws is a provider whose promise is rejected).
\<close>

record 'c DocumentOnDropEditProvider =
  providerName :: string
  dropMimeTypes :: "string list option"
  provideDocumentOnDropEdits ::
    "'c text_model \<Rightarrow> position \<Rightarrow> VSDataTransfer \<Rightarrow> DocumentOnDropEdit option settled"

text \<open>
  The collaborators the controller calls and the sources do not contain:
  \<^item> \<open>ordered\<close>: \<open>documentOnDropEditProvider.ordered(model)\<close>;
  \<^item> \<open>bulkEditService_apply\<close>: the edit, whether the token passed along is cancelled, and
    the document; fulfilled with \<open>isApplied\<close> and the new document, or rejected;
  \<^item> \<open>trackRange\<close>: where a decoration's range is once the edit has landed (\<open>None\<close>: gone);
  \<^item> \<open>model_undo\<close>: \<open>model.undo()\<close>;
  \<^item> \<open>snippetEscape\<close>: \<open>SnippetParser.escape\<close>;
  \<^item> \<open>toVSDataTransfer\<close>, \<open>addExternalEditorsDropData\<close> (vs/editor/browser/dnd).
\<close>

record 'c services =
  ordered :: "'c text_model \<Rightarrow> 'c DocumentOnDropEditProvider list"
  bulkEditService_apply :: "WorkspaceEdit \<Rightarrow> bool \<Rightarrow> 'c \<Rightarrow> (bool \<times> 'c) settled"
  trackRange :: "WorkspaceEdit \<Rightarrow> 'c \<Rightarrow> text_range \<Rightarrow> text_range option"
  model_undo :: "'c \<Rightarrow> 'c"
  snippetEscape :: "string \<Rightarrow> string"
  toVSDataTransfer :: "(string \<times> string) list \<Rightarrow> VSDataTransfer"
  addExternalEditorsDropData :: "VSDataTransfer \<Rightarrow> drag_event \<Rightarrow> VSDataTransfer"

text \<open>
  Modelled from the spec: the bulk edit service and the tracking of decorations are
  missing from the sources. The spec: "apply(combined_edit, {document_context,
  cancellation_token}) -> {isApplied: bool}; assumed atomic per call", and a tracked
  range is "a document position range that automatically adjusts as surrounding text is
  edited". The service has settled with \<open>isApplied\<close> and the document \<open>d\<close>: the model
  holds \<open>d\<close>, and when the edit was applied its decorations have moved with it.
\<close>

definition landEdit ::
  "'c services \<Rightarrow> WorkspaceEdit \<Rightarrow> bool \<Rightarrow> 'c \<Rightarrow> 'c text_model \<Rightarrow> 'c text_model" where
  "landEdit sv e isApplied d model =
     model\<lparr>doc := d,
           decorations :=
             (if isApplied
              then List.map_filter
                     (\<lambda>(i, r). map_option (Pair i) (trackRange sv e (doc model) r))
                     (decorations model)
              else decorations model)\<rparr>"

subsection \<open>Operations and the state\<close>

text \<open>What the continuation of \<open>applyDropResult\<close> after its await (line 163) captured.\<close>

record apply_frame =
  afModel :: nat
  afPosition :: position
  afSelectedEditIndex :: nat
  afAllEdits :: "DocumentOnDropEdit list"
  afToken :: nat
  afDecoration :: nat
  afCombined :: WorkspaceEdit

datatype outcome = Returned | Threw string

text \<open>
  Where the asynchronous body of an operation is suspended: at the await of line 80
  (with the extracted payload), of line 100 (with how each invoked provider settles), of
  line 109 (inside \<open>applyDropResult\<close>, line 163), or not at all any more.
\<close>

datatype phase =
    AwaitExtract VSDataTransfer
  | AwaitProviders "DocumentOnDropEdit option settled list"
  | AwaitApply apply_frame
  | Done outcome

text \<open>
  One call of the callback given to \<open>createCancelablePromise\<close>: \<open>tokenCancelled\<close> is the
  parent token (\<open>promise.cancel()\<close> fires it), \<open>tokenSourceCancelled\<close> and
  \<open>tokenSourceDisposed\<close> are the \<open>EditorStateCancellationTokenSource\<close> of line 73.
\<close>

record operation =
  opPosition :: position
  opDragEvent :: drag_event
  tokenCancelled :: bool
  tokenSourceCancelled :: bool
  tokenSourceDisposed :: bool
  opPhase :: phase

text \<open>
  The post drop widget: what \<open>show\<close> was given, and what its callback closes over
  (the model, the position and the token of lines 175 and 176).
\<close>

record post_drop_widget =
  wRange :: text_range
  activeEditIndex :: nat
  allEdits :: "DocumentOnDropEdit list"
  cbModel :: nat
  cbPosition :: position
  cbToken :: nat

text \<open>
  Where the callback of the post drop widget (lines 174 to 177) is suspended: at the
  await of line 175 (\<open>model.undo()\<close>), with the position, the new index, the edits and the
  token it closes over; or, inside the \<open>applyDropResult\<close> it has started and does not
  await, at line 163.
\<close>

datatype pending =
    AwaitUndo position nat "DocumentOnDropEdit list" nat
  | AwaitBulkEdit apply_frame

text \<open>
  The calls to collaborators, in the order they are made: a provider asked by an
  operation, the bulk edit service and \<open>model.undo()\<close> (with the operation whose token
  the caller holds), and the widget manager's \<open>show\<close>.
\<close>

datatype call =
    ProvideCall nat string
  | ApplyCall nat WorkspaceEdit
  | UndoCall nat nat
  | ShowCall post_drop_widget

text \<open>
  The controller (\<open>operationIdPool\<close>, \<open>currentOperation\<close>, the progress manager, the
  widget manager), the asynchronous bodies in flight by operation id, the suspended
  callbacks of the widget (\<open>detached\<close>: nobody awaits them), and the
  editor: the text models by reference, the one attached, focus, cursor and the
  \<open>dropIntoEditor.showDropSelector\<close> option. An operation id is a JavaScript number that
  starts at 0 and grows by one per drop; it is exact below \<open>2^53\<close> and modelled as \<open>nat\<close>.

  Modelled from the spec: \<open>InlineProgressManager\<close> is missing from the sources. The spec:
  "showAt(position, label, {onCancel}) / clear()". \<open>dropProgress\<close> holds the position and
  the operation whose token source the cancel action cancels, or nothing when cleared.
\<close>

record 'c state =
  operationIdPool :: nat
  currentOperation :: "nat option"
  dropProgress :: "(position \<times> nat) option"
  postDropWidget :: "post_drop_widget option"
  operations :: "nat \<Rightarrow> operation option"
  detached :: "pending list"
  models :: "nat \<Rightarrow> 'c text_model"
  edModel :: "nat option"
  edFocused :: bool
  edPosition :: "position option"
  showDropSelector :: string
  calls :: "call list"

subsection \<open>Cancellation tokens\<close>

definition updateOperation :: "nat \<Rightarrow> (operation \<Rightarrow> operation) \<Rightarrow> 'c state \<Rightarrow> 'c state" where
  "updateOperation operationId f s =
     (case operations s operationId of
        None \<Rightarrow> s
      | Some op \<Rightarrow> s\<lparr>operations := (operations s)(operationId \<mapsto> f op)\<rparr>)"

text \<open>
  \<open>promise.cancel()\<close> fires the parent token of the operation. The token source of
  line 73 was created with that token as its parent and follows it until it is disposed.
\<close>

definition cancelPromise :: "nat \<Rightarrow> 'c state \<Rightarrow> 'c state" where
  "cancelPromise operationId =
     updateOperation operationId
       (\<lambda>op. op\<lparr>tokenCancelled := True,
                 tokenSourceCancelled := tokenSourceCancelled op \<or> \<not> tokenSourceDisposed op\<rparr>)"

text \<open>\<open>tokenSource.cancel()\<close>, the delegate of the progress indicator (line 76).\<close>

definition cancelTokenSource :: "nat \<Rightarrow> 'c state \<Rightarrow> 'c state" where
  "cancelTokenSource operationId =
     updateOperation operationId (\<lambda>op. op\<lparr>tokenSourceCancelled := True\<rparr>)"

text \<open>
  Modelled from the spec: \<open>EditorStateCancellationTokenSource\<close> is missing from the
  sources. The spec: "a derived cancellation token that fires when specified editor state
  flags change". Every token source that is not disposed yet fires.
\<close>

definition editorStateChanged :: "'c state \<Rightarrow> 'c state" where
  "editorStateChanged s =
     s\<lparr>operations := (\<lambda>i. map_option
          (\<lambda>op. if tokenSourceDisposed op then op else op\<lparr>tokenSourceCancelled := True\<rparr>)
          (operations s i))\<rparr>"

text \<open>\<open>token.isCancellationRequested\<close> for the parent token of an operation.\<close>

definition tokenIsCancelled :: "'c state \<Rightarrow> nat \<Rightarrow> bool" where
  "tokenIsCancelled s operationId =
     (case operations s operationId of None \<Rightarrow> False | Some op \<Rightarrow> tokenCancelled op)"

subsection \<open>onDropIntoEditor\<close>

text \<open>Lines 124 to 132.\<close>

definition extractDataTransferData :: "'c services \<Rightarrow> drag_event \<Rightarrow> VSDataTransfer" where
  "extractDataTransferData sv dragEvent =
     (case dataTransfer dragEvent of
        None \<Rightarrow> []
      | Some dt \<Rightarrow> addExternalEditorsDropData sv (toVSDataTransfer sv dt) dragEvent)"

text \<open>
  Lines 59 to 80 and 121: the synchronous part of a drop. The callback of
  \<open>createCancelablePromise\<close> runs at once up to its first await (line 80), so the token
  source exists and the progress is set before \<open>_currentOperation\<close> is assigned.
\<close>

definition onDropIntoEditor ::
  "'c services \<Rightarrow> position \<Rightarrow> drag_event \<Rightarrow> 'c state \<Rightarrow> 'c state" where
  "onDropIntoEditor sv position dragEvent s =
     (if dataTransfer dragEvent = None \<or> edModel s = None then s
      else
        let s1 = (case currentOperation s of None \<Rightarrow> s | Some c \<Rightarrow> cancelPromise c s);
            s2 = s1\<lparr>dropProgress := None\<rparr>;
            s3 = s2\<lparr>edFocused := True, edPosition := Some position\<rparr>;
            operationId = operationIdPool s3;
            s4 = s3\<lparr>operationIdPool := operationId + 1\<rparr>;
            s5 = s4\<lparr>operations := (operations s4)(operationId \<mapsto>
                      \<lparr>opPosition = position, opDragEvent = dragEvent,
                       tokenCancelled = False, tokenSourceCancelled = False,
                       tokenSourceDisposed = False,
                       opPhase = AwaitExtract (extractDataTransferData sv dragEvent)\<rparr>),
                    dropProgress := Some (position, operationId)\<rparr>
        in s5\<lparr>currentOperation := Some operationId\<rparr>)"

text \<open>Lines 111 to 118, the \<open>finally\<close> block.\<close>

definition finallyBlock :: "nat \<Rightarrow> 'c state \<Rightarrow> 'c state" where
  "finallyBlock operationId s =
     (let s1 = updateOperation operationId (\<lambda>op. op\<lparr>tokenSourceDisposed := True\<rparr>) s
      in if currentOperation s1 = Some operationId
         then s1\<lparr>dropProgress := None, currentOperation := None\<rparr>
         else s1)"

text \<open>The body leaves the \<open>try\<close>, by \<open>return\<close> or by an exception: the block runs first.\<close>

definition settle :: "nat \<Rightarrow> outcome \<Rightarrow> 'c state \<Rightarrow> 'c state" where
  "settle operationId out s =
     updateOperation operationId (\<lambda>op. op\<lparr>opPhase := Done out\<rparr>) (finallyBlock operationId s)"

text \<open>Lines 90 to 98.\<close>

definition selectProviders ::
  "'c DocumentOnDropEditProvider list \<Rightarrow> VSDataTransfer \<Rightarrow> 'c DocumentOnDropEditProvider list" where
  "selectProviders registered ourDataTransfer =
     filter (\<lambda>provider.
        case dropMimeTypes provider of
          None \<Rightarrow> True
        | Some mimes \<Rightarrow> list_ex (\<lambda>mime. dt_has ourDataTransfer mime) mimes) registered"

text \<open>Lines 81 to 102: from the await of line 80 to the await of line 100.\<close>

definition afterExtract :: "'c services \<Rightarrow> nat \<Rightarrow> VSDataTransfer \<Rightarrow> 'c state \<Rightarrow> 'c state" where
  "afterExtract sv operationId ourDataTransfer s =
     (case operations s operationId of
        None \<Rightarrow> s
      | Some op \<Rightarrow>
          if dt_size ourDataTransfer = 0 \<or> tokenSourceCancelled op
          then settle operationId Returned s
          else (case edModel s of
            None \<Rightarrow> settle operationId Returned s
          | Some m \<Rightarrow>
              let model = models s m;
                  providers = selectProviders (ordered sv model) ourDataTransfer;
                  promises = map (\<lambda>provider.
                     provideDocumentOnDropEdits provider model (opPosition op) ourDataTransfer)
                     providers
              in (updateOperation operationId (\<lambda>op. op\<lparr>opPhase := AwaitProviders promises\<rparr>) s)
                   \<lparr>calls := calls s @
                      map (\<lambda>provider. ProvideCall operationId (providerName provider)) providers\<rparr>))"

subsection \<open>applyDropResult\<close>

text \<open>
  Lines 134 to 163, up to the await: the frame of the continuation, or \<open>None\<close> when the
  method returned early. The call of the bulk edit service is logged here, where it is
  made; the document changes when the service's promise settles.
\<close>

definition applyDropResult ::
  "'c services \<Rightarrow> position \<Rightarrow> nat \<Rightarrow> DocumentOnDropEdit list \<Rightarrow> nat \<Rightarrow> 'c state
     \<Rightarrow> apply_frame option \<times> 'c state" where
  "applyDropResult sv position selectedEditIndex allEdits' token s =
     (case edModel s of
        None \<Rightarrow> (None, s)
      | Some m \<Rightarrow>
          if \<not> selectedEditIndex < length allEdits' then (None, s)
          else
            let model = models s m;
                edit = allEdits' ! selectedEditIndex;
                snippet = (case insertText edit of
                             PlainText t \<Rightarrow> snippetEscape sv t
                           | SnippetTemplate t \<Rightarrow> t);
                combinedWorkspaceEdit =
                  \<lparr>edits =
                     ResourceTextEdit (uri model)
                       \<lparr>editRange = fromPositions position, editText = snippet,
                        insertAsSnippet = True\<rparr>
                     # (case additionalEdit edit of None \<Rightarrow> [] | Some w \<Rightarrow> edits w)\<rparr>;
                (editTrackingDecoration, model') = addDecoration (fromPositions position) model
            in (Some \<lparr>afModel = m, afPosition = position,
                      afSelectedEditIndex = selectedEditIndex, afAllEdits = allEdits',
                      afToken = token, afDecoration = editTrackingDecoration,
                      afCombined = combinedWorkspaceEdit\<rparr>,
                s\<lparr>models := (models s)(m := model'),
                  calls := calls s @ [ApplyCall token combinedWorkspaceEdit]\<rparr>))"

text \<open>
  Modelled from the spec: \<open>PostDropWidgetManager.show\<close> is missing from the sources. The
  spec: "show(range, {activeIndex, allCandidates}, onSelect)".
\<close>

definition showWidget :: "post_drop_widget \<Rightarrow> 'c state \<Rightarrow> 'c state" where
  "showWidget w s = s\<lparr>postDropWidget := Some w, calls := calls s @ [ShowCall w]\<rparr>"

text \<open>
  Lines 163 to 179, from the await on: the bulk edit lands in the document of the
  captured model (the decorations of that model move with it), the tracked range is
  read, the decoration is removed, and the widget is shown or not. A rejection of the
  service leaves the method at line 163.
\<close>

definition applyDropResult_resume ::
  "'c services \<Rightarrow> apply_frame \<Rightarrow> 'c state \<Rightarrow> outcome \<times> 'c state" where
  "applyDropResult_resume sv f s =
     (let model = models s (afModel f)
      in case bulkEditService_apply sv (afCombined f) (tokenIsCancelled s (afToken f))
                (doc model) of
           Rejected e \<Rightarrow> (Threw e, s)
         | Fulfilled (isApplied, d) \<Rightarrow>
             let landed = landEdit sv (afCombined f) isApplied d model;
                 editRange = getDecorationRange landed (afDecoration f);
                 model' = removeDecoration (afDecoration f) landed;
                 s1 = s\<lparr>models := (models s)(afModel f := model')\<rparr>
             in if isApplied \<and> length (afAllEdits f) > 1
                then (if showDropSelector s1 = ''afterDrop''
                      then (Returned,
                            showWidget
                              \<lparr>wRange = (case editRange of
                                           Some r \<Rightarrow> r
                                         | None \<Rightarrow> fromPositions (afPosition f)),
                               activeEditIndex = afSelectedEditIndex f,
                               allEdits = afAllEdits f,
                               cbModel = afModel f, cbPosition = afPosition f,
                               cbToken = afToken f\<rparr> s1)
                      else (Returned, s1))
                else (Returned, s1))"

text \<open>
  Lines 174 and 175, the callback given to the widget up to its await: \<open>model.undo()\<close>
  on the captured model. The callback is suspended there; line 176 runs when it is
  resumed.
\<close>

definition onDidSelectEdit :: "'c services \<Rightarrow> nat \<Rightarrow> 'c state \<Rightarrow> 'c state" where
  "onDidSelectEdit sv newEditIndex s =
     (case postDropWidget s of
        None \<Rightarrow> s
      | Some w \<Rightarrow>
          let model = models s (cbModel w)
          in s\<lparr>models := (models s)(cbModel w := model\<lparr>doc := model_undo sv (doc model)\<rparr>),
               calls := calls s @ [UndoCall (cbToken w) (cbModel w)],
               detached := detached s @
                 [AwaitUndo (cbPosition w) newEditIndex (allEdits w) (cbToken w)]\<rparr>)"

text \<open>
  Line 176, the callback from its await on: \<open>applyDropResult\<close> with the new index, which
  reads \<open>editor.getModel()\<close> now and is not awaited, so that its own continuation stays
  behind as a suspended callback.
\<close>

definition afterUndo ::
  "'c services \<Rightarrow> position \<Rightarrow> nat \<Rightarrow> DocumentOnDropEdit list \<Rightarrow> nat \<Rightarrow> 'c state
     \<Rightarrow> 'c state" where
  "afterUndo sv position newEditIndex allEdits' token s =
     (case applyDropResult sv position newEditIndex allEdits' token s of
        (None, s') \<Rightarrow> s'
      | (Some f, s') \<Rightarrow> s'\<lparr>detached := detached s' @ [AwaitBulkEdit f]\<rparr>)"

subsection \<open>The continuations of an operation\<close>

text \<open>Lines 100 to 110: from the await of line 100 to the await of line 109.\<close>

definition afterProviders ::
  "'c services \<Rightarrow> nat \<Rightarrow> DocumentOnDropEdit option settled list \<Rightarrow> bool \<Rightarrow> 'c state
     \<Rightarrow> 'c state" where
  "afterProviders sv operationId promises tokenFirst s =
     (case operations s operationId of
        None \<Rightarrow> s
      | Some op \<Rightarrow>
          (case raceCancellation (promiseAll promises) (tokenSourceCancelled op) tokenFirst of
             Rejected e \<Rightarrow> settle operationId (Threw e) s
           | Fulfilled possibleDropEdits \<Rightarrow>
               if tokenSourceCancelled op then settle operationId Returned s
               else (case possibleDropEdits of
                 None \<Rightarrow> settle operationId Returned s
               | Some es \<Rightarrow>
                   (case applyDropResult sv (opPosition op) 0 (coalesce es) operationId s of
                      (None, s') \<Rightarrow> settle operationId Returned s'
                    | (Some frame, s') \<Rightarrow>
                        updateOperation operationId
                          (\<lambda>op. op\<lparr>opPhase := AwaitApply frame\<rparr>) s'))))"

text \<open>Line 109 on: \<open>applyDropResult\<close> has settled, the body leaves the \<open>try\<close>.\<close>

definition afterApply :: "'c services \<Rightarrow> nat \<Rightarrow> apply_frame \<Rightarrow> 'c state \<Rightarrow> 'c state" where
  "afterApply sv operationId frame s =
     (case applyDropResult_resume sv frame s of (out, s') \<Rightarrow> settle operationId out s')"

definition resumeOperation :: "'c services \<Rightarrow> nat \<Rightarrow> bool \<Rightarrow> 'c state \<Rightarrow> 'c state" where
  "resumeOperation sv operationId tokenFirst s =
     (case operations s operationId of
        None \<Rightarrow> s
      | Some op \<Rightarrow>
          (case opPhase op of
             AwaitExtract ourDataTransfer \<Rightarrow> afterExtract sv operationId ourDataTransfer s
           | AwaitProviders promises \<Rightarrow> afterProviders sv operationId promises tokenFirst s
           | AwaitApply frame \<Rightarrow> afterApply sv operationId frame s
           | Done out \<Rightarrow> s))"

subsection \<open>The event loop\<close>

text \<open>
  What the host can do between two awaits: deliver a drop, run the continuation of an
  operation whose awaited promise has settled (with the scheduler's choice for the
  race of line 100), run a suspended callback of the widget (after its undo, or after
  the bulk edit of the \<open>applyDropResult\<close> it started), click the cancel action of the
  progress indicator, change the editor's state, attach another model or none, change
  the option, pick an edit in the widget.
\<close>

datatype event =
    DropIntoEditor position drag_event
  | Resume nat bool
  | ResumeDetached nat
  | CancelClicked
  | EditorStateChanged
  | ModelChanged "nat option"
  | OptionChanged string
  | SelectEdit nat

definition resumeDetached :: "'c services \<Rightarrow> nat \<Rightarrow> 'c state \<Rightarrow> 'c state" where
  "resumeDetached sv k s =
     (if k < length (detached s)
      then
        let s0 = s\<lparr>detached := take k (detached s) @ drop (Suc k) (detached s)\<rparr>
        in (case detached s ! k of
              AwaitUndo position newEditIndex allEdits' token \<Rightarrow>
                afterUndo sv position newEditIndex allEdits' token s0
            | AwaitBulkEdit f \<Rightarrow> snd (applyDropResult_resume sv f s0))
      else s)"

definition step :: "'c services \<Rightarrow> 'c state \<Rightarrow> event \<Rightarrow> 'c state" where
  "step sv s ev =
     (case ev of
        DropIntoEditor position dragEvent \<Rightarrow> onDropIntoEditor sv position dragEvent s
      | Resume operationId tokenFirst \<Rightarrow> resumeOperation sv operationId tokenFirst s
      | ResumeDetached k \<Rightarrow> resumeDetached sv k s
      | CancelClicked \<Rightarrow>
          (case dropProgress s of
             None \<Rightarrow> s
           | Some (p, operationId) \<Rightarrow> cancelTokenSource operationId s)
      | EditorStateChanged \<Rightarrow> editorStateChanged s
      | ModelChanged m \<Rightarrow> editorStateChanged (s\<lparr>edModel := m\<rparr>)
      | OptionChanged v \<Rightarrow> s\<lparr>showDropSelector := v\<rparr>
      | SelectEdit newEditIndex \<Rightarrow> onDidSelectEdit sv newEditIndex s)"

definition run :: "'c services \<Rightarrow> 'c state \<Rightarrow> event list \<Rightarrow> 'c state" where
  "run sv s evs = foldl (step sv) s evs"

text \<open>A fresh controller on an editor.\<close>

definition initial :: "(nat \<Rightarrow> 'c text_model) \<Rightarrow> nat option \<Rightarrow> string \<Rightarrow> 'c state" where
  "initial ms m sel =
     \<lparr>operationIdPool = 0, currentOperation = None, dropProgress = None,
      postDropWidget = None, operations = (\<lambda>i. None), detached = [],
      models = ms, edModel = m, edFocused = False, edPosition = None,
      showDropSelector = sel, calls = []\<rparr>"

text \<open>Where an operation is suspended, and whether its body has left the \<open>try\<close>.\<close>

definition phaseOf :: "'c state \<Rightarrow> nat \<Rightarrow> phase option" where
  "phaseOf s operationId = map_option opPhase (operations s operationId)"

definition isDone :: "phase \<Rightarrow> bool" where
  "isDone ph = (case ph of Done out \<Rightarrow> True | _ \<Rightarrow> False)"

subsection \<open>What the specification speaks about\<close>

text \<open>
  The combined edit in the spec's words: "a primary text-insertion edit at the drop
  position using the chosen candidate's text [...] unioned with the candidate's attached
  secondary edit's sub-edits (if any), in that order".
\<close>

definition specCombined ::
  "'c services \<Rightarrow> string \<Rightarrow> position \<Rightarrow> DocumentOnDropEdit \<Rightarrow> WorkspaceEdit" where
  "specCombined sv u position edit =
     \<lparr>edits =
        [ResourceTextEdit u
           \<lparr>editRange = fromPositions position,
            editText = (case insertText edit of
                          PlainText t \<Rightarrow> snippetEscape sv t
                        | SnippetTemplate t \<Rightarrow> t),
            insertAsSnippet = True\<rparr>]
        @ (case additionalEdit edit of None \<Rightarrow> [] | Some w \<Rightarrow> edits w)\<rparr>"

text \<open>The edit a call of \<open>applyDropResult\<close> hands to the bulk edit service, if any.\<close>

definition combinedWorkspaceEdit ::
  "'c services \<Rightarrow> position \<Rightarrow> nat \<Rightarrow> DocumentOnDropEdit list \<Rightarrow> nat \<Rightarrow> 'c state
     \<Rightarrow> WorkspaceEdit option" where
  "combinedWorkspaceEdit sv position i es tok s =
     map_option afCombined (fst (applyDropResult sv position i es tok s))"

text \<open>The text edit a combined workspace edit starts with.\<close>

definition primaryEdit :: "WorkspaceEdit \<Rightarrow> text_edit option" where
  "primaryEdit e =
     (case edits e of
        ResourceTextEdit u te # rest \<Rightarrow> Some te
      | _ \<Rightarrow> None)"

text \<open>
  The candidate list in the spec's words: "keep a provider if it declares no mime-type
  filter, OR if at least one of its declared mime-types is present as a key in the
  payload"; "flatten provider results into one ordered list, dropping null/empty
  results, preserving provider order". \<open>result\<close> is what each provider resolved with.
\<close>

definition specSelected :: "'c DocumentOnDropEditProvider \<Rightarrow> VSDataTransfer \<Rightarrow> bool" where
  "specSelected p payload \<longleftrightarrow>
     dropMimeTypes p = None
     \<or> (\<exists>mimes mime. dropMimeTypes p = Some mimes \<and> mime \<in> set mimes \<and> mime \<in> fst ` set payload)"

definition specCandidates ::
  "'c DocumentOnDropEditProvider list \<Rightarrow> VSDataTransfer
     \<Rightarrow> ('c DocumentOnDropEditProvider \<Rightarrow> DocumentOnDropEdit option)
     \<Rightarrow> DocumentOnDropEdit list" where
  "specCandidates registered payload result =
     concat (map (\<lambda>p. if specSelected p payload
                       then (case result p of None \<Rightarrow> [] | Some e \<Rightarrow> [e])
                       else []) registered)"

text \<open>The range the tracked decoration has once the bulk edit service has settled.\<close>

definition recoveredRange ::
  "'c services \<Rightarrow> apply_frame \<Rightarrow> bool \<Rightarrow> 'c \<Rightarrow> 'c state \<Rightarrow> text_range option" where
  "recoveredRange sv f isApplied d s =
     getDecorationRange (landEdit sv (afCombined f) isApplied d (models s (afModel f)))
       (afDecoration f)"



text \<open>The calls that change a document on behalf of an operation.\<close>

definition changesDocumentFor :: "nat \<Rightarrow> call \<Rightarrow> bool" where
  "changesDocumentFor operationId c =
     (case c of
        ApplyCall tok e \<Rightarrow> tok = operationId
      | UndoCall tok m \<Rightarrow> tok = operationId
      | _ \<Rightarrow> False)"

text \<open>Before the edit-apply step: suspended at line 80 or at line 100.\<close>

definition beforeApply :: "phase \<Rightarrow> bool" where
  "beforeApply ph =
     (case ph of AwaitExtract dt \<Rightarrow> True | AwaitProviders ps \<Rightarrow> True | _ \<Rightarrow> False)"

text \<open>How many awaits the body of an operation can still be suspended at.\<close>

definition awaitsLeft :: "phase \<Rightarrow> nat" where
  "awaitsLeft ph =
     (case ph of
        AwaitExtract dt \<Rightarrow> 3
      | AwaitProviders ps \<Rightarrow> 2
      | AwaitApply f \<Rightarrow> 1
      | Done out \<Rightarrow> 0)"

subsection \<open>Invariants of the event loop\<close>

text \<open>
  Every operation has an id below the pool; the current operation is the newest one
  and is not over; the progress indicator is the current operation's; a token source is
  disposed exactly when its operation is over; and whoever holds the token of an
  operation in a call of \<open>applyDropResult\<close>, or a widget showing its edits, got it after
  that operation had passed line 105.
\<close>

definition idsBelowPool :: "'c state \<Rightarrow> bool" where
  "idsBelowPool s \<longleftrightarrow> (\<forall>X. operations s X \<noteq> None \<longrightarrow> X < operationIdPool s)"

definition currentIsNewest :: "'c state \<Rightarrow> bool" where
  "currentIsNewest s \<longleftrightarrow>
     (\<forall>c. currentOperation s = Some c \<longrightarrow>
        Suc c = operationIdPool s
        \<and> (\<exists>op. operations s c = Some op \<and> \<not> isDone (opPhase op)))"

definition progressIsCurrent :: "'c state \<Rightarrow> bool" where
  "progressIsCurrent s \<longleftrightarrow> map_option snd (dropProgress s) = currentOperation s"

definition disposedIffDone :: "'c state \<Rightarrow> bool" where
  "disposedIffDone s \<longleftrightarrow>
     (\<forall>X op. operations s X = Some op \<longrightarrow> tokenSourceDisposed op = isDone (opPhase op))"

definition pendingToken :: "pending \<Rightarrow> nat" where
  "pendingToken t =
     (case t of AwaitUndo position i es tok \<Rightarrow> tok | AwaitBulkEdit f \<Rightarrow> afToken f)"

definition applyTokens :: "'c state \<Rightarrow> nat set" where
  "applyTokens s =
     {tok. \<exists>c \<in> set (calls s). changesDocumentFor tok c}
     \<union> cbToken ` set_option (postDropWidget s)
     \<union> pendingToken ` set (detached s)"

definition appliersPastFanOut :: "'c state \<Rightarrow> bool" where
  "appliersPastFanOut s \<longleftrightarrow>
     (\<forall>X \<in> applyTokens s. \<exists>ph. phaseOf s X = Some ph \<and> \<not> beforeApply ph)
     \<and> (\<forall>X f. phaseOf s X = Some (AwaitApply f) \<longrightarrow> afToken f = X)"

definition wellFormed :: "'c state \<Rightarrow> bool" where
  "wellFormed s \<longleftrightarrow>
     idsBelowPool s \<and> currentIsNewest s \<and> progressIsCurrent s \<and> disposedIffDone s
     \<and> appliersPastFanOut s"

text \<open>
  An operation whose token fired before the edit-apply step, now or earlier: nobody
  holds its token for an edit, and it is over, or suspended before line 105 with its
  token source cancelled.
\<close>

definition abandonedBeforeApply :: "nat \<Rightarrow> 'c state \<Rightarrow> bool" where
  "abandonedBeforeApply X s \<longleftrightarrow>
     X < operationIdPool s \<and> X \<notin> applyTokens s
     \<and> (\<exists>op. operations s X = Some op
            \<and> (isDone (opPhase op) \<or> beforeApply (opPhase op) \<and> tokenSourceCancelled op))"

subsection \<open>Snippet syntax\<close>

text \<open>
  Modelled from the spec: \<open>SnippetParser\<close> (vs/editor/contrib/snippet/browser) is missing
  from the sources. The spec: a snippet is "templated insertion text supporting
  placeholders/tab-stops, distinct from literal text", the characters "meaningful to
  snippet syntax (e.g. \<open>$1\<close>, \<open>{}\<close>)" are escaped so that they are inserted as literal text.
  \<open>SnippetParser_escape\<close> puts a backslash before \<open>$\<close>, \<open>}\<close> and the backslash.
  \<open>snippetText\<close> is the text a snippet inserts: an escaped character stands for
  itself, a tab stop \<open>$1\<close> or \<open>${1}\<close> for nothing, a placeholder \<open>${1:default}\<close> for its
  default, every other character for itself. \<open>depth\<close> counts the open placeholders.
\<close>

definition isDigit :: "char \<Rightarrow> bool" where
  "isDigit c \<longleftrightarrow> c \<in> set ''0123456789''"

definition isEscapable :: "char \<Rightarrow> bool" where
  "isEscapable c \<longleftrightarrow> c = CHR ''$'' \<or> c = CHR ''}'' \<or> c = CHR 0x5C"

definition SnippetParser_escape :: "string \<Rightarrow> string" where
  "SnippetParser_escape v =
     concat (map (\<lambda>c. if isEscapable c then [CHR 0x5C, c] else [c]) v)"

function snippetText :: "nat \<Rightarrow> string \<Rightarrow> string" where
  "snippetText depth [] = []"
| "snippetText depth (c # cs) =
     (if c = CHR 0x5C then
        (case cs of
           [] \<Rightarrow> [c]
         | e # rest \<Rightarrow>
             if isEscapable e then e # snippetText depth rest
             else c # snippetText depth cs)
      else if c = CHR ''$'' then
        (case cs of
           [] \<Rightarrow> [c]
         | e # rest \<Rightarrow>
             if isDigit e then snippetText depth (dropWhile isDigit cs)
             else if e = CHR ''{'' \<and> rest \<noteq> [] \<and> isDigit (hd rest) then
               (case dropWhile isDigit rest of
                  [] \<Rightarrow> c # snippetText depth cs
                | x # rest' \<Rightarrow>
                    if x = CHR ''}'' then snippetText depth rest'
                    else if x = CHR '':'' then snippetText (Suc depth) rest'
                    else c # snippetText depth cs)
             else c # snippetText depth cs)
      else if c = CHR ''}'' \<and> 0 < depth then snippetText (depth - 1) cs
      else c # snippetText depth cs)"
  by pat_completeness auto
termination
proof (relation "measure (\<lambda>(d, s). length s)")
  fix depth :: nat and c e x :: char and cs rest rest' :: string
  assume "dropWhile isDigit rest = x # rest'" "cs = e # rest"
  then have "Suc (length rest') \<le> length rest"
    using length_dropWhile_le [of isDigit rest] by simp
  then show "((depth, rest'), depth, c # cs) \<in> measure (\<lambda>(d, s). length s)"
    using \<open>cs = e # rest\<close> by simp
next
  fix depth :: nat and c e x :: char and cs rest rest' :: string
  assume "dropWhile isDigit rest = x # rest'" "cs = e # rest"
  then have "Suc (length rest') \<le> length rest"
    using length_dropWhile_le [of isDigit rest] by simp
  then show "((Suc depth, rest'), depth, c # cs) \<in> measure (\<lambda>(d, s). length s)"
    using \<open>cs = e # rest\<close> by simp
qed (auto intro!: le_imp_less_Suc le_SucI length_dropWhile_le)

subsection \<open>A concrete editor\<close>

text \<open>
  An instance on which the theorems are evaluated. A document is its content followed
  by the earlier contents (the undo history); the bulk edit service puts the text of
  the primary edit in front of the content unless the token is cancelled; undo drops
  the newest content; a decoration grows by the inserted text. Three providers are registered, in this order: one for
  \<open>text/plain\<close>, one for \<open>text/uri-list\<close>, one without mime types.
\<close>

definition exC0 :: DocumentOnDropEdit where
  "exC0 = \<lparr>label = ''C0'', insertText = PlainText ''u'', additionalEdit = None\<rparr>"

definition exC1 :: DocumentOnDropEdit where
  "exC1 = \<lparr>label = ''C1'', insertText = PlainText ''a$1{}'', additionalEdit = None\<rparr>"

definition exC2 :: DocumentOnDropEdit where
  "exC2 =
     \<lparr>label = ''C2'', insertText = SnippetTemplate ''b${1:x}'',
      additionalEdit = Some \<lparr>edits = [ResourceFileEdit None (Some ''file:///new'')]\<rparr>\<rparr>"

definition exPlain :: "string list DocumentOnDropEditProvider" where
  "exPlain =
     \<lparr>providerName = ''plain'', dropMimeTypes = Some [''text/plain''],
      provideDocumentOnDropEdits = (\<lambda>model p dt. Fulfilled (Some exC1))\<rparr>"

definition exUriList :: "string list DocumentOnDropEditProvider" where
  "exUriList =
     \<lparr>providerName = ''uri'', dropMimeTypes = Some [''text/uri-list''],
      provideDocumentOnDropEdits = (\<lambda>model p dt. Fulfilled (Some exC0))\<rparr>"

definition exAny :: "string list DocumentOnDropEditProvider" where
  "exAny =
     \<lparr>providerName = ''any'', dropMimeTypes = None,
      provideDocumentOnDropEdits = (\<lambda>model p dt. Fulfilled (Some exC2))\<rparr>"

definition exServices :: "string list services" where
  "exServices =
     \<lparr>ordered = (\<lambda>model. [exPlain, exUriList, exAny]),
      bulkEditService_apply = (\<lambda>e cancelled d.
        if cancelled then Fulfilled (False, d)
        else Fulfilled (True,
               ((case primaryEdit e of None \<Rightarrow> [] | Some te \<Rightarrow> snippetText 0 (editText te))
                 @ (case d of [] \<Rightarrow> [] | content # history \<Rightarrow> content)) # d)),
      trackRange = (\<lambda>e d r.
        Some (r\<lparr>endColumn := endColumn r +
          length (case primaryEdit e of None \<Rightarrow> [] | Some te \<Rightarrow> snippetText 0 (editText te))\<rparr>)),
      model_undo = (\<lambda>d. case d of [] \<Rightarrow> [] | content # history \<Rightarrow> history),
      snippetEscape = SnippetParser_escape,
      toVSDataTransfer = (\<lambda>dt. dt),
      addExternalEditorsDropData = (\<lambda>dt dragEvent. dt)\<rparr>"

definition exModel :: "string list text_model" where
  "exModel = \<lparr>uri = ''file:///a.ts'', doc = [''hello''], decorations = [], decorationIdPool = 0\<rparr>"

definition exPosition :: position where
  "exPosition = \<lparr>lineNumber = 1, column = 1\<rparr>"

definition exDrag :: drag_event where
  "exDrag = \<lparr>dataTransfer = Some [(''text/plain'', ''dropped'')]\<rparr>"

definition exInitial :: "string list state" where
  "exInitial = initial (\<lambda>i. exModel) (Some 0) ''afterDrop''"

text \<open>
  The first drop on the fresh editor, resumed twice: the two providers that apply have
  resolved, and the operation waits for the bulk edit service with the first candidate.
\<close>

definition exAwaitApply :: "string list state" where
  "exAwaitApply =
     run exServices exInitial [DropIntoEditor exPosition exDrag, Resume 0 False, Resume 0 False]"

definition exFrame :: apply_frame where
  "exFrame =
     \<lparr>afModel = 0, afPosition = exPosition, afSelectedEditIndex = 0,
      afAllEdits = [exC1, exC2], afToken = 0, afDecoration = 0,
      afCombined = specCombined exServices ''file:///a.ts'' exPosition exC1\<rparr>"

text \<open>The first drop on the fresh editor, its operation and what its providers resolve with.\<close>

definition exDropped :: "string list state" where
  "exDropped = step exServices exInitial (DropIntoEditor exPosition exDrag)"

definition exOperation :: operation where
  "exOperation =
     \<lparr>opPosition = exPosition, opDragEvent = exDrag, tokenCancelled = False,
      tokenSourceCancelled = False, tokenSourceDisposed = False,
      opPhase = AwaitExtract [(''text/plain'', ''dropped'')]\<rparr>"

definition exResult :: "string list DocumentOnDropEditProvider \<Rightarrow> DocumentOnDropEdit option" where
  "exResult p =
     (case provideDocumentOnDropEdits p exModel exPosition [(''text/plain'', ''dropped'')] of
        Fulfilled v \<Rightarrow> v
      | Rejected e \<Rightarrow> None)"

text \<open>
  Two drops in a row: the first operation is superseded by the second. And a drop
  followed by a change of the editor's state: the token source of the operation fires.
\<close>

definition exSuperseded :: "string list state" where
  "exSuperseded =
     run exServices exInitial
       [DropIntoEditor exPosition exDrag, DropIntoEditor exPosition exDrag]"

definition exCancelled :: "string list state" where
  "exCancelled =
     run exServices exInitial [DropIntoEditor exPosition exDrag, EditorStateChanged]"

text \<open>A drop whose providers have been asked when the user clicks the cancel action.\<close>

definition exCancelledLate :: "string list state" where
  "exCancelledLate =
     run exServices exInitial [DropIntoEditor exPosition exDrag, Resume 0 False, CancelClicked]"

section \<open>Proofs\<close>

subsection \<open>What the helpers leave alone\<close>

lemma calls_updateOperation [simp]: "calls (updateOperation i f s) = calls s"
  by (simp add: updateOperation_def split: option.splits)

lemma models_updateOperation [simp]: "models (updateOperation i f s) = models s"
  by (simp add: updateOperation_def split: option.splits)

lemma calls_finallyBlock [simp]: "calls (finallyBlock i s) = calls s"
  by (simp add: finallyBlock_def Let_def)

lemma models_finallyBlock [simp]: "models (finallyBlock i s) = models s"
  by (simp add: finallyBlock_def Let_def)

lemma calls_settle [simp]: "calls (settle i out s) = calls s"
  by (simp add: settle_def)

lemma models_settle [simp]: "models (settle i out s) = models s"
  by (simp add: settle_def)

lemma operations_updateOperation:
  "operations (updateOperation i f s) j =
     (if j = i then map_option f (operations s i) else operations s j)"
  by (simp add: updateOperation_def split: option.splits)

lemma operations_finallyBlock:
  "operations (finallyBlock i s) j =
     (if j = i then map_option (\<lambda>op. op\<lparr>tokenSourceDisposed := True\<rparr>) (operations s i)
      else operations s j)"
  by (simp add: finallyBlock_def Let_def operations_updateOperation)

lemma operations_settle:
  "operations (settle i out s) j =
     (if j = i
      then map_option (\<lambda>op. op\<lparr>tokenSourceDisposed := True, opPhase := Done out\<rparr>)
             (operations s i)
      else operations s j)"
  by (simp add: settle_def operations_updateOperation operations_finallyBlock
      option.map_comp comp_def)

lemma phaseOf_settle:
  "phaseOf (settle i out s) j =
     (if j = i then map_option (\<lambda>op. Done out) (operations s i) else phaseOf s j)"
  by (simp add: phaseOf_def operations_settle option.map_comp comp_def)

subsection \<open>The guard of onDropIntoEditor\<close>

text \<open>
  Line 60 is one guard for both cases. A drop without \<open>dataTransfer\<close> on an editor that
  has its model, while an operation is in flight and its progress is showing, changes
  nothing either: the state after the event is the state before it.
\<close>

theorem drop_without_dataTransfer_is_noop_too:
  "edModel exDropped = Some 0
   \<and> currentOperation exDropped = Some 0
   \<and> dropProgress exDropped = Some (exPosition, 0)
   \<and> operationIdPool exDropped = 1
   \<and> step exServices exDropped (DropIntoEditor exPosition \<lparr>dataTransfer = None\<rparr>) = exDropped"
proof -
  have "edModel exDropped = Some 0" "currentOperation exDropped = Some 0"
    "dropProgress exDropped = Some (exPosition, 0)" "operationIdPool exDropped = 1"
    by (simp_all add: exDropped_def step_def onDropIntoEditor_def exInitial_def initial_def
        exDrag_def Let_def)
  moreover have "step exServices exDropped (DropIntoEditor exPosition \<lparr>dataTransfer = None\<rparr>)
      = exDropped"
    by (simp add: step_def onDropIntoEditor_def)
  ultimately show ?thesis
    by simp
qed

text \<open>
  C9. When the editor has no model, a drop changes nothing at all: the state after the
  event is the state before it, so the previous operation is not cancelled, the progress
  indicator is not cleared, no operation id is allocated and the current operation stays.
  A drop without \<open>dataTransfer\<close> is stopped by the same guard and leaves the whole state
  untouched as well.
\<close>

theorem drop_guard_is_noop:
  "dataTransfer dragEvent = None \<or> edModel s = None
     \<Longrightarrow> step sv s (DropIntoEditor position dragEvent) = s"
  by (auto simp: step_def onDropIntoEditor_def)

theorem drop_guard_is_noop_witness:
  "edModel (run exServices exInitial [DropIntoEditor exPosition exDrag, ModelChanged None]) = None
   \<and> currentOperation
        (run exServices exInitial [DropIntoEditor exPosition exDrag, ModelChanged None]) = Some 0
   \<and> dropProgress
        (run exServices exInitial [DropIntoEditor exPosition exDrag, ModelChanged None])
       = Some (exPosition, 0)
   \<and> step exServices
        (run exServices exInitial [DropIntoEditor exPosition exDrag, ModelChanged None])
        (DropIntoEditor exPosition exDrag)
       = run exServices exInitial [DropIntoEditor exPosition exDrag, ModelChanged None]"
proof -
  let ?s = "run exServices exInitial [DropIntoEditor exPosition exDrag, ModelChanged None]"
  have m: "edModel ?s = None"
    by (simp add: run_def step_def editorStateChanged_def)
  have c: "currentOperation ?s = Some 0" "dropProgress ?s = Some (exPosition, 0)"
    by (simp_all add: run_def step_def editorStateChanged_def onDropIntoEditor_def exInitial_def
        initial_def exDrag_def Let_def)
  show ?thesis
    using m c drop_guard_is_noop [of exDrag ?s exServices exPosition] by simp
qed

subsection \<open>An empty payload\<close>

text \<open>
  C8. A drag event without \<open>dataTransfer\<close> extracts to the empty payload (and, by the
  guard of line 60, such a drop changes nothing). Whenever the payload that was
  extracted is empty, the continuation after line 80 returns at once: no collaborator is
  called (no provider above all), no text model changes, and the operation is over.
\<close>

theorem empty_payload_short_circuits:
  "(dataTransfer dragEvent = None \<longrightarrow>
      extractDataTransferData sv dragEvent = []
      \<and> dt_size (extractDataTransferData sv dragEvent) = 0
      \<and> step sv s (DropIntoEditor position dragEvent) = s)
   \<and> (phaseOf s X = Some (AwaitExtract dt) \<and> dt_size dt = 0 \<longrightarrow>
        calls (step sv s (Resume X b)) = calls s
        \<and> models (step sv s (Resume X b)) = models s
        \<and> phaseOf (step sv s (Resume X b)) X = Some (Done Returned))"
proof (intro conjI impI)
  assume "dataTransfer dragEvent = None"
  then show "extractDataTransferData sv dragEvent = []"
    and "dt_size (extractDataTransferData sv dragEvent) = 0"
    and "step sv s (DropIntoEditor position dragEvent) = s"
    by (simp_all add: extractDataTransferData_def dt_size_def step_def onDropIntoEditor_def)
next
  assume h: "phaseOf s X = Some (AwaitExtract dt) \<and> dt_size dt = 0"
  then obtain op where op: "operations s X = Some op" "opPhase op = AwaitExtract dt"
    by (auto simp: phaseOf_def)
  have r: "step sv s (Resume X b) = settle X Returned s"
    using op h by (simp add: step_def resumeOperation_def afterExtract_def)
  show "calls (step sv s (Resume X b)) = calls s"
    and "models (step sv s (Resume X b)) = models s"
    and "phaseOf (step sv s (Resume X b)) X = Some (Done Returned)"
    using op by (simp_all add: r phaseOf_settle)
qed

theorem empty_payload_short_circuits_witness:
  "dataTransfer \<lparr>dataTransfer = None\<rparr> = None
   \<and> extractDataTransferData exServices \<lparr>dataTransfer = None\<rparr> = []
   \<and> phaseOf (step exServices exInitial (DropIntoEditor exPosition \<lparr>dataTransfer = Some []\<rparr>)) 0
       = Some (AwaitExtract [])
   \<and> dt_size [] = 0
   \<and> calls (run exServices exInitial
        [DropIntoEditor exPosition \<lparr>dataTransfer = Some []\<rparr>, Resume 0 False]) = []
   \<and> phaseOf (run exServices exInitial
        [DropIntoEditor exPosition \<lparr>dataTransfer = Some []\<rparr>, Resume 0 False]) 0
       = Some (Done Returned)"
proof -
  let ?s = "step exServices exInitial (DropIntoEditor exPosition \<lparr>dataTransfer = Some []\<rparr>)"
  have p: "phaseOf ?s 0 = Some (AwaitExtract [])"
    by (simp add: step_def onDropIntoEditor_def exInitial_def initial_def Let_def phaseOf_def
        extractDataTransferData_def exServices_def)
  have c: "calls ?s = []"
    by (simp add: step_def onDropIntoEditor_def exInitial_def initial_def Let_def)
  have z: "dt_size [] = 0"
    by (simp add: dt_size_def)
  show ?thesis
    using p c z
      empty_payload_short_circuits
        [where dragEvent = "\<lparr>dataTransfer = None\<rparr>" and sv = exServices and s = ?s
           and position = exPosition and X = 0 and dt = "[]" and b = False]
    by (simp add: run_def)
qed

subsection \<open>applyDropResult up to its await\<close>

lemma applyDropResult_Some:
  assumes "edModel s = Some m" and "i < length es"
  shows "applyDropResult sv position i es tok s =
    (Some \<lparr>afModel = m, afPosition = position, afSelectedEditIndex = i, afAllEdits = es,
            afToken = tok, afDecoration = decorationIdPool (models s m),
            afCombined = specCombined sv (uri (models s m)) position (es ! i)\<rparr>,
     s\<lparr>models := (models s)(m := snd (addDecoration (fromPositions position) (models s m))),
       calls := calls s @ [ApplyCall tok (specCombined sv (uri (models s m)) position (es ! i))]\<rparr>)"
  using assms by (simp add: applyDropResult_def Let_def addDecoration_def specCombined_def)

lemma applyDropResult_None:
  "edModel s = None \<or> \<not> i < length es \<Longrightarrow> applyDropResult sv position i es tok s = (None, s)"
  by (auto simp: applyDropResult_def split: option.splits)

lemma applyDropResult_SomeD:
  assumes "applyDropResult sv position i es tok s = (Some f, s')"
  shows "\<exists>m. edModel s = Some m \<and> i < length es"
  using assms by (auto simp: applyDropResult_def split: option.splits if_splits)

lemma applyDropResult_frame [simp]:
  "edModel (snd (applyDropResult sv position i es tok s)) = edModel s"
  "operations (snd (applyDropResult sv position i es tok s)) = operations s"
  "detached (snd (applyDropResult sv position i es tok s)) = detached s"
  "showDropSelector (snd (applyDropResult sv position i es tok s)) = showDropSelector s"
  "postDropWidget (snd (applyDropResult sv position i es tok s)) = postDropWidget s"
  "currentOperation (snd (applyDropResult sv position i es tok s)) = currentOperation s"
  "dropProgress (snd (applyDropResult sv position i es tok s)) = dropProgress s"
  "operationIdPool (snd (applyDropResult sv position i es tok s)) = operationIdPool s"
  by (simp_all add: applyDropResult_def Let_def addDecoration_def split: option.splits)

lemma combinedWorkspaceEdit_Some:
  assumes "edModel s = Some m" and "i < length es"
  shows "combinedWorkspaceEdit sv position i es tok s =
     Some (specCombined sv (uri (models s m)) position (es ! i))"
  by (simp add: combinedWorkspaceEdit_def applyDropResult_Some [OF assms])

text \<open>
  C6. For a chosen candidate (an index in range, a model attached) the edit handed to
  the bulk edit service is the primary text edit at the drop position with the
  candidate's text, followed by the sub-edits of the candidate's additional edit in
  their order, and nothing else.
\<close>

theorem combined_edit_primary_then_secondary:
  assumes "edModel s = Some m" and "i < length es"
  shows "map_option edits (combinedWorkspaceEdit sv position i es tok s) =
     Some (ResourceTextEdit (uri (models s m))
            \<lparr>editRange = fromPositions position,
             editText = (case insertText (es ! i) of
                           PlainText t \<Rightarrow> snippetEscape sv t
                         | SnippetTemplate t \<Rightarrow> t),
             insertAsSnippet = True\<rparr>
           # (case additionalEdit (es ! i) of None \<Rightarrow> [] | Some w \<Rightarrow> edits w))
   \<and> calls (snd (applyDropResult sv position i es tok s)) =
       calls s @ map (ApplyCall tok) (case combinedWorkspaceEdit sv position i es tok s of
                                        None \<Rightarrow> [] | Some e \<Rightarrow> [e])"
  by (simp add: combinedWorkspaceEdit_Some [OF assms] applyDropResult_Some [OF assms]
      specCombined_def)

theorem combined_edit_primary_then_secondary_witness:
  "edModel exInitial = Some 0 \<and> 1 < length [exC1, exC2]
   \<and> map_option edits (combinedWorkspaceEdit exServices exPosition 1 [exC1, exC2] 0 exInitial) =
     Some [ResourceTextEdit ''file:///a.ts''
            \<lparr>editRange = \<lparr>startLineNumber = 1, startColumn = 1, endLineNumber = 1, endColumn = 1\<rparr>,
             editText = ''b${1:x}'', insertAsSnippet = True\<rparr>,
           ResourceFileEdit None (Some ''file:///new'')]"
proof -
  have m: "edModel exInitial = Some 0"
    by (simp add: exInitial_def initial_def)
  have i: "1 < length [exC1, exC2]"
    by simp
  show ?thesis
    using m i combined_edit_primary_then_secondary [OF m i, of exServices exPosition 0]
    by (simp add: exInitial_def initial_def exModel_def exC2_def fromPositions_def exPosition_def)
qed

text \<open>
  C10. The primary edit of an applied candidate is an insertion: its range is the empty
  range at the drop position, and it is applied as a snippet, whatever the kind of the
  candidate's text.
\<close>

theorem primary_edit_is_snippet_insertion:
  assumes "edModel s = Some m" and "i < length es"
  shows "map_option editRange
           (Option.bind (combinedWorkspaceEdit sv position i es tok s) primaryEdit)
           = Some (fromPositions position)
     \<and> isEmptyRange (fromPositions position)
     \<and> startLineNumber (fromPositions position) = lineNumber position
     \<and> startColumn (fromPositions position) = column position
     \<and> map_option insertAsSnippet
           (Option.bind (combinedWorkspaceEdit sv position i es tok s) primaryEdit)
           = Some True"
  by (simp add: combinedWorkspaceEdit_Some [OF assms] specCombined_def primaryEdit_def
      fromPositions_def isEmptyRange_def)

theorem primary_edit_is_snippet_insertion_witness:
  "edModel exInitial = Some 0 \<and> 0 < length [exC1, exC2]
   \<and> map_option editRange
        (Option.bind (combinedWorkspaceEdit exServices exPosition 0 [exC1, exC2] 0 exInitial)
           primaryEdit)
       = Some \<lparr>startLineNumber = 1, startColumn = 1, endLineNumber = 1, endColumn = 1\<rparr>
   \<and> map_option insertAsSnippet
        (Option.bind (combinedWorkspaceEdit exServices exPosition 0 [exC1, exC2] 0 exInitial)
           primaryEdit)
       = Some True"
proof -
  have m: "edModel exInitial = Some 0"
    by (simp add: exInitial_def initial_def)
  have i: "0 < length [exC1, exC2]"
    by simp
  show ?thesis
    using m primary_edit_is_snippet_insertion [OF m i, of exServices exPosition 0]
    by (simp add: fromPositions_def exPosition_def)
qed

subsection \<open>Escaping\<close>

lemma snippetText_escape: "snippetText d (SnippetParser_escape t) = t"
proof (induction t)
  case Nil
  then show ?case by (simp add: SnippetParser_escape_def)
next
  case (Cons c t)
  show ?case
  proof (cases "isEscapable c")
    case True
    then show ?thesis using Cons by (simp add: SnippetParser_escape_def)
  next
    case False
    then show ?thesis using Cons by (simp add: SnippetParser_escape_def isEscapable_def)
  qed
qed

text \<open>
  C7. With the escaping of the snippet parser, the text of the primary edit for a
  literal candidate is the escaped literal, and the snippet inserts the literal itself;
  for a snippet candidate the text of the primary edit is the template as it is.
\<close>

theorem literal_text_is_escaped:
  assumes "snippetEscape sv = SnippetParser_escape"
    and "edModel s = Some m" and "i < length es"
  shows "case insertText (es ! i) of
           PlainText t \<Rightarrow>
             map_option editText
               (Option.bind (combinedWorkspaceEdit sv position i es tok s) primaryEdit)
               = Some (SnippetParser_escape t)
             \<and> map_option (\<lambda>te. snippetText 0 (editText te))
               (Option.bind (combinedWorkspaceEdit sv position i es tok s) primaryEdit)
               = Some t
         | SnippetTemplate t \<Rightarrow>
             map_option editText
               (Option.bind (combinedWorkspaceEdit sv position i es tok s) primaryEdit)
               = Some t"
  by (simp add: combinedWorkspaceEdit_Some [OF assms(2,3)] primaryEdit_def assms(1)
      specCombined_def snippetText_escape split: insert_text.splits)

theorem literal_text_is_escaped_witness:
  "snippetEscape exServices = SnippetParser_escape
   \<and> edModel exInitial = Some 0 \<and> 0 < length [exC1, exC2] \<and> 1 < length [exC1, exC2]
   \<and> insertText exC1 = PlainText ''a$1{}''
   \<and> map_option editText
        (Option.bind (combinedWorkspaceEdit exServices exPosition 0 [exC1, exC2] 0 exInitial)
           primaryEdit)
       = Some (''a'' @ [CHR 0x5C] @ ''$1{'' @ [CHR 0x5C] @ ''}'')
   \<and> map_option (\<lambda>te. snippetText 0 (editText te))
        (Option.bind (combinedWorkspaceEdit exServices exPosition 0 [exC1, exC2] 0 exInitial)
           primaryEdit)
       = Some ''a$1{}''
   \<and> snippetText 0 ''a$1{}'' = ''a{}''
   \<and> map_option editText
        (Option.bind (combinedWorkspaceEdit exServices exPosition 1 [exC1, exC2] 0 exInitial)
           primaryEdit)
       = Some ''b${1:x}''"
proof -
  have e: "snippetEscape exServices = SnippetParser_escape"
    by (simp add: exServices_def)
  have m: "edModel exInitial = Some 0"
    by (simp add: exInitial_def initial_def)
  have i0: "0 < length [exC1, exC2]" and i1: "1 < length [exC1, exC2]"
    by simp_all
  have t0: "insertText ([exC1, exC2] ! 0) = PlainText ''a$1{}''"
    and t1: "insertText ([exC1, exC2] ! 1) = SnippetTemplate ''b${1:x}''"
    and t: "insertText exC1 = PlainText ''a$1{}''"
    by (simp_all add: exC1_def exC2_def)
  have y: "snippetText 0 ''a$1{}'' = ''a{}''"
    by (simp add: isDigit_def isEscapable_def)
  show ?thesis
    using e m t y
      literal_text_is_escaped [OF e m i0, of exPosition 0]
      literal_text_is_escaped [OF e m i1, of exPosition 0]
    unfolding t0 t1 by (simp add: SnippetParser_escape_def isEscapable_def)
qed

subsection \<open>applyDropResult from its await on\<close>

lemma postDropWidget_updateOperation [simp]:
  "postDropWidget (updateOperation i g s) = postDropWidget s"
  by (simp add: updateOperation_def split: option.splits)

lemma postDropWidget_finallyBlock [simp]:
  "postDropWidget (finallyBlock i s) = postDropWidget s"
  by (simp add: finallyBlock_def Let_def)

lemma postDropWidget_settle [simp]: "postDropWidget (settle i out s) = postDropWidget s"
  by (simp add: settle_def)

lemma resume_fulfilled:
  assumes "bulkEditService_apply sv (afCombined f) (tokenIsCancelled s (afToken f))
             (doc (models s (afModel f))) = Fulfilled (isApplied, d)"
  shows "applyDropResult_resume sv f s =
     (Returned,
      (if isApplied \<and> 1 < length (afAllEdits f) \<and> showDropSelector s = ''afterDrop''
       then showWidget
              \<lparr>wRange = (case recoveredRange sv f isApplied d s of
                           Some r \<Rightarrow> r | None \<Rightarrow> fromPositions (afPosition f)),
               activeEditIndex = afSelectedEditIndex f, allEdits = afAllEdits f,
               cbModel = afModel f, cbPosition = afPosition f, cbToken = afToken f\<rparr>
       else (\<lambda>x. x))
        (s\<lparr>models := (models s)(afModel f :=
             removeDecoration (afDecoration f)
               (landEdit sv (afCombined f) isApplied d (models s (afModel f))))\<rparr>))"
  using assms
  by (simp add: applyDropResult_resume_def Let_def recoveredRange_def)

lemma resume_rejected:
  assumes "bulkEditService_apply sv (afCombined f) (tokenIsCancelled s (afToken f))
             (doc (models s (afModel f))) = Rejected e"
  shows "applyDropResult_resume sv f s = (Threw e, s)"
  using assms by (simp add: applyDropResult_resume_def Let_def)

lemma applyDropResult_resume_frame [simp]:
  "edModel (snd (applyDropResult_resume sv f s)) = edModel s"
  "operations (snd (applyDropResult_resume sv f s)) = operations s"
  "detached (snd (applyDropResult_resume sv f s)) = detached s"
  "showDropSelector (snd (applyDropResult_resume sv f s)) = showDropSelector s"
  "currentOperation (snd (applyDropResult_resume sv f s)) = currentOperation s"
  "dropProgress (snd (applyDropResult_resume sv f s)) = dropProgress s"
  "operationIdPool (snd (applyDropResult_resume sv f s)) = operationIdPool s"
  by (simp_all add: applyDropResult_resume_def Let_def showWidget_def
      split: settled.splits prod.splits)

lemma step_resume_apply:
  assumes "phaseOf s X = Some (AwaitApply f)"
  shows "step sv s (Resume X b) =
     settle X (fst (applyDropResult_resume sv f s)) (snd (applyDropResult_resume sv f s))"
  using assms
  by (auto simp: step_def resumeOperation_def afterApply_def phaseOf_def split: prod.splits)

text \<open>
  C4. When the bulk edit service has settled for an operation, the widget manager's
  \<open>show\<close> is called if and only if the edit was applied, there is more than one
  candidate and \<open>showDropSelector\<close> is \<open>afterDrop\<close>. The widget shown is anchored at the
  range of the tracked decoration, or at the drop position collapsed to a point when
  that decoration is gone, and holds all candidates and the index just applied.
  Otherwise nothing is shown and the widget manager is left as it was.
\<close>

theorem post_drop_widget_shown_iff:
  assumes "phaseOf s X = Some (AwaitApply f)"
    and "bulkEditService_apply sv (afCombined f) (tokenIsCancelled s (afToken f))
           (doc (models s (afModel f))) = r"
  shows "((\<exists>w. calls (step sv s (Resume X b)) = calls s @ [ShowCall w]) \<longleftrightarrow>
            (\<exists>d. r = Fulfilled (True, d)) \<and> 1 < length (afAllEdits f)
            \<and> showDropSelector s = ''afterDrop'')
     \<and> (\<forall>w. calls (step sv s (Resume X b)) = calls s @ [ShowCall w] \<longrightarrow>
           postDropWidget (step sv s (Resume X b)) = Some w
           \<and> (\<exists>d. r = Fulfilled (True, d)
                \<and> wRange w = (case recoveredRange sv f True d s of
                                Some tracked \<Rightarrow> tracked
                              | None \<Rightarrow> fromPositions (afPosition f)))
           \<and> activeEditIndex w = afSelectedEditIndex f
           \<and> allEdits w = afAllEdits f)
     \<and> ((\<forall>w. calls (step sv s (Resume X b)) \<noteq> calls s @ [ShowCall w]) \<longrightarrow>
           calls (step sv s (Resume X b)) = calls s
           \<and> postDropWidget (step sv s (Resume X b)) = postDropWidget s)"
proof (cases r)
  case (Rejected e)
  then show ?thesis
    using assms by (simp add: step_resume_apply resume_rejected)
next
  case (Fulfilled p)
  obtain isApplied d where p: "p = (isApplied, d)"
    by (cases p)
  show ?thesis
    using assms Fulfilled p
    by (auto simp: step_resume_apply resume_fulfilled showWidget_def)
qed

lemmas model_defs =
  run_def step_def onDropIntoEditor_def resumeOperation_def afterExtract_def afterProviders_def
  afterApply_def applyDropResult_def applyDropResult_resume_def settle_def finallyBlock_def
  updateOperation_def cancelPromise_def cancelTokenSource_def editorStateChanged_def
  extractDataTransferData_def selectProviders_def raceCancellation_def coalesce_def
  dt_size_def dt_has_def addDecoration_def getDecorationRange_def removeDecoration_def
  landEdit_def showWidget_def onDidSelectEdit_def resumeDetached_def phaseOf_def
  tokenIsCancelled_def initial_def fromPositions_def primaryEdit_def recoveredRange_def
  specCombined_def List.map_filter_def Let_def

lemmas ex_defs =
  exServices_def exInitial_def exModel_def exPosition_def exDrag_def exPlain_def exUriList_def
  exAny_def exC0_def exC1_def exC2_def

lemma exAwaitApply_phase:
  "phaseOf exAwaitApply 0 = Some (AwaitApply exFrame)"
  by (simp add: exAwaitApply_def exFrame_def model_defs ex_defs)

lemma exAwaitApply_fields:
  "calls exAwaitApply =
     [ProvideCall 0 ''plain'', ProvideCall 0 ''any'', ApplyCall 0 (afCombined exFrame)]"
  "showDropSelector exAwaitApply = ''afterDrop''"
  "tokenIsCancelled exAwaitApply 0 = False"
  "doc (models exAwaitApply 0) = [''hello'']"
  "postDropWidget exAwaitApply = None"
  by (simp_all add: exAwaitApply_def exFrame_def model_defs ex_defs)

lemma exFrame_apply:
  "bulkEditService_apply exServices (afCombined exFrame) False [''hello'']
     = Fulfilled (True, [''a$1{}hello'', ''hello''])"
  by (simp add: exFrame_def exServices_def primaryEdit_def specCombined_def exC1_def
      snippetText_escape)

theorem post_drop_widget_shown_iff_witness:
  "phaseOf exAwaitApply 0 = Some (AwaitApply exFrame)
   \<and> bulkEditService_apply exServices (afCombined exFrame) (tokenIsCancelled exAwaitApply 0)
        (doc (models exAwaitApply 0)) = Fulfilled (True, [''a$1{}hello'', ''hello''])
   \<and> 1 < length (afAllEdits exFrame) \<and> showDropSelector exAwaitApply = ''afterDrop''
   \<and> (\<exists>w. calls (step exServices exAwaitApply (Resume 0 False)) = calls exAwaitApply @ [ShowCall w]
         \<and> postDropWidget (step exServices exAwaitApply (Resume 0 False)) = Some w
         \<and> wRange w = \<lparr>startLineNumber = 1, startColumn = 1, endLineNumber = 1, endColumn = 6\<rparr>
         \<and> activeEditIndex w = 0 \<and> allEdits w = [exC1, exC2])"
proof -
  have ff: "afSelectedEditIndex exFrame = 0" "afAllEdits exFrame = [exC1, exC2]"
    "afToken exFrame = 0" "afModel exFrame = 0"
    by (simp_all add: exFrame_def)
  have r: "bulkEditService_apply exServices (afCombined exFrame)
        (tokenIsCancelled exAwaitApply (afToken exFrame))
        (doc (models exAwaitApply (afModel exFrame))) = Fulfilled (True, [''a$1{}hello'', ''hello''])"
    using exFrame_apply by (simp add: exAwaitApply_fields ff)
  have n: "1 < length (afAllEdits exFrame)"
    by (simp add: ff)
  have rr: "recoveredRange exServices exFrame True [''a$1{}hello'', ''hello''] exAwaitApply
      = Some \<lparr>startLineNumber = 1, startColumn = 1, endLineNumber = 1, endColumn = 6\<rparr>"
    by (simp add: exAwaitApply_def exFrame_def model_defs ex_defs snippetText_escape)
  note t = post_drop_widget_shown_iff [OF exAwaitApply_phase r, of False]
  from t n obtain w where
    w: "calls (step exServices exAwaitApply (Resume 0 False)) = calls exAwaitApply @ [ShowCall w]"
    by (auto simp: exAwaitApply_fields)
  with t have "postDropWidget (step exServices exAwaitApply (Resume 0 False)) = Some w
     \<and> wRange w = \<lparr>startLineNumber = 1, startColumn = 1, endLineNumber = 1, endColumn = 6\<rparr>
     \<and> activeEditIndex w = 0 \<and> allEdits w = [exC1, exC2]"
    by (auto simp: rr ff)
  with w show ?thesis
    using exAwaitApply_phase r n by (auto simp: exAwaitApply_fields ff)
qed

subsection \<open>Picking another edit\<close>

lemma tokenIsCancelled_cong:
  "operations s' = operations s \<Longrightarrow> tokenIsCancelled s' tok = tokenIsCancelled s tok"
  by (simp add: tokenIsCancelled_def)





lemma onDidSelectEdit_fields:
  assumes "postDropWidget s = Some w"
  shows "calls (onDidSelectEdit sv j s) = calls s @ [UndoCall (cbToken w) (cbModel w)]"
    and "detached (onDidSelectEdit sv j s) =
           detached s @ [AwaitUndo (cbPosition w) j (allEdits w) (cbToken w)]"
    and "doc (models (onDidSelectEdit sv j s) (cbModel w)) =
           model_undo sv (doc (models s (cbModel w)))"
    and "uri (models (onDidSelectEdit sv j s) (cbModel w)) = uri (models s (cbModel w))"
    and "decorationIdPool (models (onDidSelectEdit sv j s) (cbModel w)) =
           decorationIdPool (models s (cbModel w))"
    and "operations (onDidSelectEdit sv j s) = operations s"
    and "edModel (onDidSelectEdit sv j s) = edModel s"
  using assms by (simp_all add: onDidSelectEdit_def Let_def)

lemma resumeDetached_last:
  assumes "detached s = fs @ [t]"
  shows "resumeDetached sv (length fs) s =
     (case t of
        AwaitUndo position newEditIndex allEdits' token \<Rightarrow>
          afterUndo sv position newEditIndex allEdits' token (s\<lparr>detached := fs\<rparr>)
      | AwaitBulkEdit f \<Rightarrow> snd (applyDropResult_resume sv f (s\<lparr>detached := fs\<rparr>)))"
  using assms by (simp add: resumeDetached_def nth_append Let_def)


lemma afterUndo_None:
  assumes "edModel s = None \<or> \<not> j < length es"
  shows "afterUndo sv position j es tok s = s"
  using assms by (auto simp: afterUndo_def applyDropResult_None)

text \<open>
  The callback is suspended at its await: when the editor has lost its model before the
  callback is resumed, the undo has been done and no edit is applied after it.
\<close>

lemma select_then_model_lost:
  assumes "postDropWidget s = Some w"
  shows "calls (run sv s [SelectEdit j, ModelChanged None, ResumeDetached (length (detached s))])
           = calls s @ [UndoCall (cbToken w) (cbModel w)]"
    and "detached (run sv s [SelectEdit j, ModelChanged None, ResumeDetached (length (detached s))])
           = detached s"
proof -
  let ?s2 = "onDidSelectEdit sv j s"
  let ?s3 = "editorStateChanged (?s2\<lparr>edModel := None\<rparr>)"
  have det: "detached ?s3 = detached s @ [AwaitUndo (cbPosition w) j (allEdits w) (cbToken w)]"
    using onDidSelectEdit_fields(2) [OF assms, of sv j]
    by (simp add: editorStateChanged_def Let_def split: option.splits)
  have c3: "calls ?s3 = calls s @ [UndoCall (cbToken w) (cbModel w)]"
    using onDidSelectEdit_fields(1) [OF assms, of sv j]
    by (simp add: editorStateChanged_def Let_def split: option.splits)
  have m3: "edModel (?s3\<lparr>detached := detached s\<rparr>) = None \<or> \<not> j < length (allEdits w)"
    by (simp add: editorStateChanged_def Let_def split: option.splits)
  have r: "run sv s [SelectEdit j, ModelChanged None, ResumeDetached (length (detached s))]
        = ?s3\<lparr>detached := detached s\<rparr>"
    using resumeDetached_last [OF det, of sv] afterUndo_None [OF m3]
    by (simp add: run_def step_def)
  show "calls (run sv s [SelectEdit j, ModelChanged None, ResumeDetached (length (detached s))])
           = calls s @ [UndoCall (cbToken w) (cbModel w)]"
    unfolding r using c3 by simp
  show "detached (run sv s [SelectEdit j, ModelChanged None, ResumeDetached (length (detached s))])
           = detached s"
    unfolding r by simp
qed




subsection \<open>The fan-out\<close>

lemma promiseAll_Fulfilled: "promiseAll (map (\<lambda>p. Fulfilled (g p)) ps) = Fulfilled (map g ps)"
  by (induction ps) simp_all

lemma selected_iff_specSelected:
  "(case dropMimeTypes p of None \<Rightarrow> True | Some mimes \<Rightarrow> list_ex (\<lambda>mime. dt_has payload mime) mimes)
     \<longleftrightarrow> specSelected p payload"
  by (auto simp: specSelected_def dt_has_def list_ex_iff split: option.splits)

lemma selectProviders_spec:
  "selectProviders registered payload = filter (\<lambda>p. specSelected p payload) registered"
  by (simp add: selectProviders_def selected_iff_specSelected)

lemma coalesce_selected:
  "coalesce (map result (filter (\<lambda>p. specSelected p payload) registered))
     = specCandidates registered payload result"
  by (induction registered) (auto simp: coalesce_def specCandidates_def split: option.splits)

lemma step_resume_extract:
  assumes "operations s X = Some op" and "opPhase op = AwaitExtract payload"
    and "dt_size payload \<noteq> 0" and "\<not> tokenSourceCancelled op" and "edModel s = Some m"
  shows "step sv s (Resume X b) =
     s\<lparr>operations := (operations s)(X \<mapsto> op\<lparr>opPhase := AwaitProviders
          (map (\<lambda>p. provideDocumentOnDropEdits p (models s m) (opPosition op) payload)
             (filter (\<lambda>p. specSelected p payload) (ordered sv (models s m))))\<rparr>),
       calls := calls s @ map (\<lambda>p. ProvideCall X (providerName p))
          (filter (\<lambda>p. specSelected p payload) (ordered sv (models s m)))\<rparr>"
  using assms
  by (simp add: step_def resumeOperation_def afterExtract_def Let_def updateOperation_def
      selectProviders_spec)

text \<open>
  C2. An operation holds a non-empty payload, its token has not fired, the editor has a
  model, and every provider that applies resolves (with \<open>result\<close>). Then the providers
  asked are exactly the registered ones without mime types or with a mime type that is a
  key of the payload, in registry order; and the candidate list \<open>applyDropResult\<close>
  receives is the list of their non-null results in that order. An empty candidate list
  ends the operation.
\<close>

theorem fan_out_candidates:
  assumes "operations s X = Some op" and "opPhase op = AwaitExtract payload"
    and "dt_size payload \<noteq> 0" and "\<not> tokenSourceCancelled op" and "edModel s = Some m"
    and "\<forall>p \<in> set (ordered sv (models s m)). specSelected p payload \<longrightarrow>
           provideDocumentOnDropEdits p (models s m) (opPosition op) payload
             = Fulfilled (result p)"
  shows "calls (step sv s (Resume X b)) =
           calls s @ map (\<lambda>p. ProvideCall X (providerName p))
             (filter (\<lambda>p. specSelected p payload) (ordered sv (models s m)))
     \<and> (case phaseOf (run sv s [Resume X b, Resume X b']) X of
           Some (AwaitApply f) \<Rightarrow>
             afAllEdits f = specCandidates (ordered sv (models s m)) payload result
             \<and> afSelectedEditIndex f = 0
         | Some (Done out) \<Rightarrow>
             specCandidates (ordered sv (models s m)) payload result = [] \<and> out = Returned
         | _ \<Rightarrow> False)"
proof -
  let ?sel = "filter (\<lambda>p. specSelected p payload) (ordered sv (models s m))"
  let ?cands = "specCandidates (ordered sv (models s m)) payload result"
  let ?ps = "map (\<lambda>p. provideDocumentOnDropEdits p (models s m) (opPosition op) payload) ?sel"
  let ?op1 = "op\<lparr>opPhase := AwaitProviders ?ps\<rparr>"
  let ?s1 = "step sv s (Resume X b)"
  note s1 = step_resume_extract [OF assms(1-5), of sv b]
  have ps: "?ps = map (\<lambda>p. Fulfilled (result p)) ?sel"
    using assms(6) by (auto intro!: map_cong)
  have all: "promiseAll ?ps = Fulfilled (map result ?sel)"
    unfolding ps by (rule promiseAll_Fulfilled)
  have op1: "operations ?s1 X = Some ?op1" and m1: "edModel ?s1 = Some m"
    using assms(5) by (simp_all add: s1)
  have after: "step sv ?s1 (Resume X b') =
     (case applyDropResult sv (opPosition op) 0 ?cands X ?s1 of
        (None, s') \<Rightarrow> settle X Returned s'
      | (Some frame, s') \<Rightarrow> updateOperation X (\<lambda>op. op\<lparr>opPhase := AwaitApply frame\<rparr>) s')"
    using op1 assms(4)
    by (simp add: step_def resumeOperation_def afterProviders_def all raceCancellation_def
        coalesce_selected)
  have ph: "(case phaseOf (step sv ?s1 (Resume X b')) X of
           Some (AwaitApply f) \<Rightarrow> afAllEdits f = ?cands \<and> afSelectedEditIndex f = 0
         | Some (Done out) \<Rightarrow> ?cands = [] \<and> out = Returned
         | _ \<Rightarrow> False)"
  proof (cases "?cands = []")
    case True
    then have "applyDropResult sv (opPosition op) 0 ?cands X ?s1 = (None, ?s1)"
      by (simp add: applyDropResult_None)
    then show ?thesis
      using True op1 by (simp add: after phaseOf_settle)
  next
    case False
    then have i: "0 < length ?cands"
      by simp
    show ?thesis
      using op1
      by (simp add: after applyDropResult_Some [OF m1 i] phaseOf_def operations_updateOperation)
  qed
  show ?thesis
    using ph by (simp add: run_def s1)
qed

lemma exDropped_fields:
  "operations exDropped 0 = Some exOperation"
  "edModel exDropped = Some 0"
  "models exDropped 0 = exModel"
  "calls exDropped = []"
  by (simp_all add: exDropped_def exOperation_def model_defs ex_defs)

theorem fan_out_candidates_witness:
  "operations exDropped 0 = Some exOperation
   \<and> opPhase exOperation = AwaitExtract [(''text/plain'', ''dropped'')]
   \<and> dt_size [(''text/plain'', ''dropped'')] \<noteq> 0
   \<and> \<not> tokenSourceCancelled exOperation
   \<and> edModel exDropped = Some 0
   \<and> ordered exServices (models exDropped 0) = [exPlain, exUriList, exAny]
   \<and> specCandidates [exPlain, exUriList, exAny] [(''text/plain'', ''dropped'')] exResult
       = [exC1, exC2]
   \<and> calls (step exServices exDropped (Resume 0 False))
       = [ProvideCall 0 ''plain'', ProvideCall 0 ''any'']
   \<and> (\<exists>f. phaseOf (run exServices exDropped [Resume 0 False, Resume 0 False]) 0
              = Some (AwaitApply f)
          \<and> afAllEdits f = [exC1, exC2] \<and> afSelectedEditIndex f = 0)"
proof -
  let ?payload = "[(''text/plain'', ''dropped'')]"
  have ph: "opPhase exOperation = AwaitExtract ?payload"
    and nc: "\<not> tokenSourceCancelled exOperation"
    and pos: "opPosition exOperation = exPosition"
    by (simp_all add: exOperation_def)
  have sz: "dt_size ?payload \<noteq> 0"
    by (simp add: dt_size_def)
  have ord: "ordered exServices model = [exPlain, exUriList, exAny]" for model
    by (simp add: exServices_def)
  have sel: "specSelected exPlain ?payload" "\<not> specSelected exUriList ?payload"
    "specSelected exAny ?payload"
    by (simp_all add: specSelected_def exPlain_def exUriList_def exAny_def)
  have res: "exResult exPlain = Some exC1" "exResult exAny = Some exC2"
    by (simp_all add: exResult_def exPlain_def exAny_def)
  have h: "\<forall>p \<in> set (ordered exServices (models exDropped 0)). specSelected p ?payload \<longrightarrow>
           provideDocumentOnDropEdits p (models exDropped 0) (opPosition exOperation) ?payload
             = Fulfilled (exResult p)"
    by (simp add: exServices_def exDropped_fields pos exResult_def exPlain_def exUriList_def
        exAny_def)
  have cands: "specCandidates [exPlain, exUriList, exAny] ?payload exResult = [exC1, exC2]"
    by (simp add: specCandidates_def sel res)
  have names: "providerName exPlain = ''plain''" "providerName exAny = ''any''"
    by (simp_all add: exPlain_def exAny_def)
  have run2: "phaseOf (run exServices exDropped [Resume 0 False, Resume 0 False]) 0
      = Some (AwaitApply exFrame)"
    using exAwaitApply_phase by (simp add: exAwaitApply_def exDropped_def run_def)
  note t = fan_out_candidates [OF exDropped_fields(1) ph sz nc exDropped_fields(2) h,
      of False False]
  have c: "calls (step exServices exDropped (Resume 0 False))
       = [ProvideCall 0 ''plain'', ProvideCall 0 ''any'']"
    using t by (simp add: ord sel names exDropped_fields)
  have f: "afAllEdits exFrame = [exC1, exC2] \<and> afSelectedEditIndex exFrame = 0"
    using t by (simp add: run2 ord cands)
  show ?thesis
    using exDropped_fields(1,2) ph sz nc ord cands c run2 f by simp
qed

subsection \<open>The invariants hold in every reachable state\<close>

lemma updateOperation_frame [simp]:
  "operationIdPool (updateOperation i g s) = operationIdPool s"
  "currentOperation (updateOperation i g s) = currentOperation s"
  "dropProgress (updateOperation i g s) = dropProgress s"
  "detached (updateOperation i g s) = detached s"
  "edModel (updateOperation i g s) = edModel s"
  "showDropSelector (updateOperation i g s) = showDropSelector s"
  by (simp_all add: updateOperation_def split: option.splits)

lemma finallyBlock_frame [simp]:
  "operationIdPool (finallyBlock i s) = operationIdPool s"
  "detached (finallyBlock i s) = detached s"
  "edModel (finallyBlock i s) = edModel s"
  "showDropSelector (finallyBlock i s) = showDropSelector s"
  "currentOperation (finallyBlock i s) =
     (if currentOperation s = Some i then None else currentOperation s)"
  "dropProgress (finallyBlock i s) =
     (if currentOperation s = Some i then None else dropProgress s)"
  by (simp_all add: finallyBlock_def Let_def)

lemma settle_frame [simp]:
  "operationIdPool (settle i out s) = operationIdPool s"
  "detached (settle i out s) = detached s"
  "edModel (settle i out s) = edModel s"
  "showDropSelector (settle i out s) = showDropSelector s"
  "currentOperation (settle i out s) =
     (if currentOperation s = Some i then None else currentOperation s)"
  "dropProgress (settle i out s) =
     (if currentOperation s = Some i then None else dropProgress s)"
  by (simp_all add: settle_def)

lemma applyTokens_cong:
  "calls s' = calls s \<Longrightarrow> postDropWidget s' = postDropWidget s \<Longrightarrow> detached s' = detached s
     \<Longrightarrow> applyTokens s' = applyTokens s"
  by (simp add: applyTokens_def)

lemma applyTokens_settle [simp]: "applyTokens (settle i out s) = applyTokens s"
  by (rule applyTokens_cong) simp_all

lemma applyTokens_updateOperation [simp]: "applyTokens (updateOperation i g s) = applyTokens s"
  by (rule applyTokens_cong) simp_all

lemma phaseOf_updateOperation:
  "phaseOf (updateOperation i g s) j =
     (if j = i then map_option (\<lambda>op. opPhase (g op)) (operations s i) else phaseOf s j)"
  by (simp add: phaseOf_def operations_updateOperation option.map_comp comp_def)

lemma phaseOf_Some_iff:
  "phaseOf s X = Some ph \<longleftrightarrow> (\<exists>op. operations s X = Some op \<and> opPhase op = ph)"
  by (auto simp: phaseOf_def)

lemma idsBelowPool_settle: "idsBelowPool s \<Longrightarrow> idsBelowPool (settle X out s)"
  by (simp add: idsBelowPool_def operations_settle)

lemma currentIsNewest_settle: "currentIsNewest s \<Longrightarrow> currentIsNewest (settle X out s)"
  by (auto simp: currentIsNewest_def operations_settle)

lemma progressIsCurrent_settle: "progressIsCurrent s \<Longrightarrow> progressIsCurrent (settle X out s)"
  by (simp add: progressIsCurrent_def)

lemma disposedIffDone_settle: "disposedIffDone s \<Longrightarrow> disposedIffDone (settle X out s)"
  by (auto simp: disposedIffDone_def operations_settle isDone_def split: if_splits)

lemma appliersPastFanOut_settle:
  assumes "appliersPastFanOut s"
  shows "appliersPastFanOut (settle X out s)"
  unfolding appliersPastFanOut_def
proof (intro conjI ballI allI impI)
  fix Y
  assume "Y \<in> applyTokens (settle X out s)"
  then obtain ph where ph: "phaseOf s Y = Some ph" "\<not> beforeApply ph"
    using assms by (auto simp: appliersPastFanOut_def)
  show "\<exists>ph. phaseOf (settle X out s) Y = Some ph \<and> \<not> beforeApply ph"
  proof (cases "Y = X")
    case True
    then have "phaseOf (settle X out s) Y = Some (Done out)"
      using ph by (auto simp: phaseOf_settle phaseOf_Some_iff)
    then show ?thesis
      by (simp add: beforeApply_def)
  next
    case False
    then show ?thesis
      using ph by (simp add: phaseOf_settle)
  qed
next
  fix Y f
  assume "phaseOf (settle X out s) Y = Some (AwaitApply f)"
  then have "phaseOf s Y = Some (AwaitApply f)"
    by (auto simp: phaseOf_settle split: if_splits)
  then show "afToken f = Y"
    using assms by (simp add: appliersPastFanOut_def)
qed

lemma wellFormed_settle: "wellFormed s \<Longrightarrow> wellFormed (settle X out s)"
  by (simp add: wellFormed_def idsBelowPool_settle currentIsNewest_settle
      progressIsCurrent_settle disposedIffDone_settle appliersPastFanOut_settle)

text \<open>A change of the phase of one operation that does not end it.\<close>

lemma wellFormed_phase:
  assumes "wellFormed s" and "\<not> isDone ph"
    and "beforeApply ph \<longrightarrow> X \<notin> applyTokens s"
    and "\<forall>f. ph = AwaitApply f \<longrightarrow> afToken f = X"
    and "\<forall>op. operations s X = Some op \<longrightarrow> \<not> isDone (opPhase op)"
  shows "wellFormed (updateOperation X (\<lambda>op. op\<lparr>opPhase := ph\<rparr>) s)"
proof -
  let ?s' = "updateOperation X (\<lambda>op. op\<lparr>opPhase := ph\<rparr>) s"
  have ph': "phaseOf ?s' Y = (if Y = X then map_option (\<lambda>op. ph) (operations s X) else phaseOf s Y)"
    for Y
    by (simp add: phaseOf_updateOperation)
  have 1: "idsBelowPool ?s'"
    using assms(1) by (simp add: wellFormed_def idsBelowPool_def operations_updateOperation)
  have 2: "currentIsNewest ?s'"
    using assms(1,2)
    by (auto simp: wellFormed_def currentIsNewest_def operations_updateOperation)
  have 3: "progressIsCurrent ?s'"
    using assms(1) by (simp add: wellFormed_def progressIsCurrent_def)
  have 4: "disposedIffDone ?s'"
    using assms(1,2,5)
    by (auto simp: wellFormed_def disposedIffDone_def operations_updateOperation
        split: if_splits)
  have 5: "appliersPastFanOut ?s'"
    unfolding appliersPastFanOut_def
  proof (intro conjI ballI allI impI)
    fix Y
    assume "Y \<in> applyTokens ?s'"
    then have Y: "Y \<in> applyTokens s"
      by simp
    then obtain p where p: "phaseOf s Y = Some p" "\<not> beforeApply p"
      using assms(1) by (auto simp: wellFormed_def appliersPastFanOut_def)
    show "\<exists>p. phaseOf ?s' Y = Some p \<and> \<not> beforeApply p"
    proof (cases "Y = X")
      case True
      then have "\<not> beforeApply ph"
        using Y assms(3) by blast
      moreover have "phaseOf ?s' Y = Some ph"
        using True p by (auto simp: ph' phaseOf_Some_iff)
      ultimately show ?thesis
        by simp
    next
      case False
      then show ?thesis
        using p by (simp add: ph')
    qed
  next
    fix Y f
    assume a: "phaseOf ?s' Y = Some (AwaitApply f)"
    show "afToken f = Y"
    proof (cases "Y = X")
      case True
      then have "ph = AwaitApply f"
        using a by (auto simp: ph')
      then show ?thesis
        using assms(4) True by simp
    next
      case False
      then have "phaseOf s Y = Some (AwaitApply f)"
        using a by (simp add: ph')
      then show ?thesis
        using assms(1) by (simp add: wellFormed_def appliersPastFanOut_def)
    qed
  qed
  show ?thesis
    using 1 2 3 4 5 by (simp add: wellFormed_def)
qed

text \<open>A change that leaves the operations and the controller's slots alone.\<close>

lemma wellFormed_others:
  assumes "wellFormed s" and "operations s' = operations s"
    and "operationIdPool s' = operationIdPool s"
    and "currentOperation s' = currentOperation s" and "dropProgress s' = dropProgress s"
    and "applyTokens s' \<subseteq> applyTokens s"
  shows "wellFormed s'"
  using assms
  unfolding wellFormed_def idsBelowPool_def currentIsNewest_def progressIsCurrent_def
    disposedIffDone_def appliersPastFanOut_def phaseOf_def
  by (simp add: subset_iff)

lemma wellFormed_initial: "wellFormed (initial ms m sel)"
  by (simp add: wellFormed_def idsBelowPool_def currentIsNewest_def progressIsCurrent_def
      disposedIffDone_def appliersPastFanOut_def applyTokens_def phaseOf_def initial_def)

lemma not_applier_before_apply:
  assumes "wellFormed s" and "operations s X = Some op" and "beforeApply (opPhase op)"
  shows "X \<notin> applyTokens s"
  using assms by (auto simp: wellFormed_def appliersPastFanOut_def phaseOf_def)

lemma not_done_before_apply: "beforeApply ph \<Longrightarrow> \<not> isDone ph"
  by (auto simp: beforeApply_def isDone_def split: phase.splits)

lemma applyTokens_provide_calls:
  "applyTokens (s\<lparr>calls := calls s @ map (\<lambda>p. ProvideCall X (g p)) ps\<rparr>) = applyTokens s"
  by (auto simp: applyTokens_def changesDocumentFor_def)

lemma wellFormed_afterExtract:
  fixes s :: "'c state" and sv :: "'c services"
  assumes "wellFormed s" and "operations s X = Some op" and "opPhase op = AwaitExtract dt"
  shows "wellFormed (afterExtract sv X dt s)"
proof -
  have before: "beforeApply (opPhase op)"
    using assms(3) by (simp add: beforeApply_def)
  have nd: "\<forall>op. operations s X = Some op \<longrightarrow> \<not> isDone (opPhase op)"
    using assms(2) before not_done_before_apply by auto
  have ph: "wellFormed (updateOperation X (\<lambda>op. op\<lparr>opPhase := AwaitProviders ps\<rparr>) s)" for ps
    using not_applier_before_apply [OF assms(1,2) before] nd
    by (intro wellFormed_phase [OF assms(1)]) (simp_all add: isDone_def)
  have upd: "wellFormed ((updateOperation X (\<lambda>op. op\<lparr>opPhase := AwaitProviders ps\<rparr>) s)
          \<lparr>calls := calls s @ map (\<lambda>p. ProvideCall X (providerName p)) qs\<rparr>)"
    for ps and qs :: "'c DocumentOnDropEditProvider list"
    by (rule wellFormed_others [OF ph [of ps]])
      (simp_all add: applyTokens_provide_calls [of "updateOperation X _ s", simplified])
  show ?thesis
  proof (cases "dt_size dt = 0 \<or> tokenSourceCancelled op")
    case True
    then have "afterExtract sv X dt s = settle X Returned s"
      using assms(2) by (simp add: afterExtract_def)
    then show ?thesis
      by (simp add: wellFormed_settle [OF assms(1)])
  next
    case False
    show ?thesis
    proof (cases "edModel s")
      case None
      then have "afterExtract sv X dt s = settle X Returned s"
        using assms(2) False by (simp add: afterExtract_def)
      then show ?thesis
        by (simp add: wellFormed_settle [OF assms(1)])
    next
      case (Some m)
      have "afterExtract sv X dt s =
        (updateOperation X (\<lambda>op'. op'\<lparr>opPhase := AwaitProviders
            (map (\<lambda>provider. provideDocumentOnDropEdits provider (models s m) (opPosition op) dt)
               (selectProviders (ordered sv (models s m)) dt))\<rparr>) s)
          \<lparr>calls := calls s @ map (\<lambda>p. ProvideCall X (providerName p))
               (selectProviders (ordered sv (models s m)) dt)\<rparr>"
        using assms(2) False Some by (simp add: afterExtract_def Let_def)
      then show ?thesis
        using upd by simp
    qed
  qed
qed

lemma applyTokens_applyDropResult:
  "applyTokens (snd (applyDropResult sv position i es tok s)) \<subseteq> insert tok (applyTokens s)"
  by (auto simp: applyDropResult_def Let_def addDecoration_def applyTokens_def
      changesDocumentFor_def split: option.splits call.splits)

lemma applyTokens_applyDropResult_Some:
  assumes "applyDropResult sv position i es tok s = (Some f, s')"
  shows "afToken f = tok"
  using assms
  by (auto simp: applyDropResult_def Let_def addDecoration_def split: option.splits if_splits)

lemma applyTokens_resume:
  "applyTokens (snd (applyDropResult_resume sv f s)) \<subseteq> insert (afToken f) (applyTokens s)"
  by (auto simp: applyDropResult_resume_def Let_def showWidget_def applyTokens_def
      changesDocumentFor_def split: settled.splits prod.splits call.splits)

lemma wellFormed_others_past:
  assumes "wellFormed s" and "operations s' = operations s"
    and "operationIdPool s' = operationIdPool s"
    and "currentOperation s' = currentOperation s" and "dropProgress s' = dropProgress s"
    and "\<forall>Y \<in> applyTokens s'. Y \<in> applyTokens s \<or> (\<exists>ph. phaseOf s Y = Some ph \<and> \<not> beforeApply ph)"
  shows "wellFormed s'"
proof -
  have "\<forall>Y \<in> applyTokens s'. \<exists>ph. phaseOf s' Y = Some ph \<and> \<not> beforeApply ph"
    using assms(1,2,6) by (auto simp: wellFormed_def appliersPastFanOut_def phaseOf_def)
  then show ?thesis
    using assms(1-5)
    unfolding wellFormed_def idsBelowPool_def currentIsNewest_def progressIsCurrent_def
      disposedIffDone_def appliersPastFanOut_def phaseOf_def
    by simp
qed

lemma wellFormed_afterApply:
  assumes "wellFormed s" and "operations s X = Some op" and "opPhase op = AwaitApply f"
  shows "wellFormed (afterApply sv X f s)"
proof -
  have tok: "afToken f = X"
    using assms by (auto simp: wellFormed_def appliersPastFanOut_def phaseOf_def)
  have past: "phaseOf s X = Some (AwaitApply f)" "\<not> beforeApply (AwaitApply f)"
    using assms(2,3) by (simp_all add: phaseOf_def beforeApply_def)
  have "wellFormed (snd (applyDropResult_resume sv f s))"
  proof (rule wellFormed_others_past [OF assms(1)])
    show "\<forall>Y \<in> applyTokens (snd (applyDropResult_resume sv f s)).
        Y \<in> applyTokens s \<or> (\<exists>ph. phaseOf s Y = Some ph \<and> \<not> beforeApply ph)"
      using applyTokens_resume [of sv f s] tok past by auto
  qed simp_all
  then show ?thesis
    by (cases "applyDropResult_resume sv f s") (simp add: afterApply_def wellFormed_settle)
qed

lemma updateOperation_commute:
  "updateOperation X g (s\<lparr>models := ms, calls := cs\<rparr>)
     = (updateOperation X g s)\<lparr>models := ms, calls := cs\<rparr>"
  by (simp add: updateOperation_def split: option.splits)

lemma wellFormed_afterProviders:
  assumes "wellFormed s" and "operations s X = Some op" and "opPhase op = AwaitProviders ps"
  shows "wellFormed (afterProviders sv X ps b s)"
proof -
  have nd: "\<forall>op. operations s X = Some op \<longrightarrow> \<not> isDone (opPhase op)"
    using assms(2,3) by (auto simp: isDone_def)
  have applied: "wellFormed (case applyDropResult sv (opPosition op) 0 es X s of
        (None, s') \<Rightarrow> settle X Returned s'
      | (Some frame, s') \<Rightarrow> updateOperation X (\<lambda>op. op\<lparr>opPhase := AwaitApply frame\<rparr>) s')"
    for es
  proof (cases "\<exists>m. edModel s = Some m \<and> 0 < length es")
    case False
    then have "applyDropResult sv (opPosition op) 0 es X s = (None, s)"
      by (intro applyDropResult_None) auto
    then show ?thesis
      by (simp add: wellFormed_settle [OF assms(1)])
  next
    case True
    then obtain m where m: "edModel s = Some m" "0 < length es"
      by blast
    let ?f = "\<lparr>afModel = m, afPosition = opPosition op, afSelectedEditIndex = 0, afAllEdits = es,
            afToken = X, afDecoration = decorationIdPool (models s m),
            afCombined = specCombined sv (uri (models s m)) (opPosition op) (es ! 0)\<rparr>"
    let ?s1 = "updateOperation X (\<lambda>op. op\<lparr>opPhase := AwaitApply ?f\<rparr>) s"
    have wf1: "wellFormed ?s1"
      using nd by (intro wellFormed_phase [OF assms(1)]) (simp_all add: isDone_def beforeApply_def)
    have ph1: "phaseOf ?s1 X = Some (AwaitApply ?f)"
      using assms(2) by (simp add: phaseOf_updateOperation)
    have "wellFormed (?s1\<lparr>models := ms, calls := calls s @ [ApplyCall X e]\<rparr>)" for ms e
    proof (rule wellFormed_others_past [OF wf1])
      show "\<forall>Y \<in> applyTokens (?s1\<lparr>models := ms, calls := calls s @ [ApplyCall X e]\<rparr>).
          Y \<in> applyTokens ?s1 \<or> (\<exists>ph. phaseOf ?s1 Y = Some ph \<and> \<not> beforeApply ph)"
        using ph1 by (auto simp: applyTokens_def changesDocumentFor_def beforeApply_def
            split: call.splits)
    qed simp_all
    then show ?thesis
      by (simp add: applyDropResult_Some [OF m] updateOperation_commute)
  qed
  show ?thesis
  proof (cases "raceCancellation (promiseAll ps) (tokenSourceCancelled op) b")
    case (Rejected e)
    then show ?thesis
      using assms(2) by (simp add: afterProviders_def wellFormed_settle [OF assms(1)])
  next
    case (Fulfilled v)
    then show ?thesis
      using assms(2) applied
      by (simp add: afterProviders_def wellFormed_settle [OF assms(1)] split: option.splits)
  qed
qed

lemma wellFormed_resumeOperation:
  assumes "wellFormed s"
  shows "wellFormed (resumeOperation sv X b s)"
proof (cases "operations s X")
  case None
  then show ?thesis
    using assms by (simp add: resumeOperation_def)
next
  case (Some op)
  then show ?thesis
    using assms
    by (cases "opPhase op")
      (simp_all add: resumeOperation_def wellFormed_afterExtract wellFormed_afterProviders
        wellFormed_afterApply)
qed

lemma afterUndo_eq:
  "afterUndo sv p j es tok s =
     (case fst (applyDropResult sv p j es tok s) of
        None \<Rightarrow> snd (applyDropResult sv p j es tok s)
      | Some f \<Rightarrow> (snd (applyDropResult sv p j es tok s))
                    \<lparr>detached := detached s @ [AwaitBulkEdit f]\<rparr>)"
  using applyDropResult_frame(3) [of sv p j es tok s]
  by (cases "applyDropResult sv p j es tok s") (simp add: afterUndo_def split: option.splits)

lemma afterUndo_frame [simp]:
  "operations (afterUndo sv p j es tok s) = operations s"
  "operationIdPool (afterUndo sv p j es tok s) = operationIdPool s"
  "currentOperation (afterUndo sv p j es tok s) = currentOperation s"
  "dropProgress (afterUndo sv p j es tok s) = dropProgress s"
  by (simp_all add: afterUndo_eq split: option.splits)

lemma applyTokens_afterUndo:
  "applyTokens (afterUndo sv p j es tok s) \<subseteq> insert tok (applyTokens s)"
proof (cases "fst (applyDropResult sv p j es tok s)")
  case None
  then show ?thesis
    using applyTokens_applyDropResult [of sv p j es tok s] by (simp add: afterUndo_eq)
next
  case (Some f)
  then have "afToken f = tok"
    using applyTokens_applyDropResult_Some [of sv p j es tok s f "snd (applyDropResult sv p j es tok s)"]
    by (simp add: prod_eq_iff)
  then have "applyTokens ((snd (applyDropResult sv p j es tok s))
                \<lparr>detached := detached s @ [AwaitBulkEdit f]\<rparr>)
      \<subseteq> insert tok (applyTokens (snd (applyDropResult sv p j es tok s)))"
    by (auto simp: applyTokens_def pendingToken_def)
  then show ?thesis
    using Some applyTokens_applyDropResult [of sv p j es tok s] by (auto simp: afterUndo_eq)
qed

lemma applyTokens_resumeDetached: "applyTokens (resumeDetached sv k s) \<subseteq> applyTokens s"
proof (cases "k < length (detached s)")
  case False
  then show ?thesis
    by (simp add: resumeDetached_def)
next
  case True
  let ?s0 = "s\<lparr>detached := take k (detached s) @ drop (Suc k) (detached s)\<rparr>"
  have t: "pendingToken (detached s ! k) \<in> applyTokens s"
    using True by (auto simp: applyTokens_def)
  have s0: "applyTokens ?s0 \<subseteq> applyTokens s"
    by (auto simp: applyTokens_def dest: in_set_takeD in_set_dropD)
  show ?thesis
  proof (cases "detached s ! k")
    case (AwaitUndo p j es tok)
    then have "applyTokens (afterUndo sv p j es tok ?s0) \<subseteq> applyTokens s"
      using applyTokens_afterUndo [of sv p j es tok ?s0] s0 t by (auto simp: pendingToken_def)
    then show ?thesis
      using True AwaitUndo by (simp add: resumeDetached_def)
  next
    case (AwaitBulkEdit f)
    then have "applyTokens (snd (applyDropResult_resume sv f ?s0)) \<subseteq> applyTokens s"
      using applyTokens_resume [of sv f ?s0] s0 t by (auto simp: pendingToken_def)
    then show ?thesis
      using True AwaitBulkEdit by (simp add: resumeDetached_def)
  qed
qed

lemma resumeDetached_frame [simp]:
  "operations (resumeDetached sv k s) = operations s"
  "operationIdPool (resumeDetached sv k s) = operationIdPool s"
  "currentOperation (resumeDetached sv k s) = currentOperation s"
  "dropProgress (resumeDetached sv k s) = dropProgress s"
  by (simp_all add: resumeDetached_def Let_def split: pending.splits)

lemma wellFormed_resumeDetached:
  assumes "wellFormed s"
  shows "wellFormed (resumeDetached sv k s)"
  by (rule wellFormed_others [OF assms _ _ _ _ applyTokens_resumeDetached]) simp_all

lemma onDidSelectEdit_frame [simp]:
  "operations (onDidSelectEdit sv j s) = operations s"
  "operationIdPool (onDidSelectEdit sv j s) = operationIdPool s"
  "currentOperation (onDidSelectEdit sv j s) = currentOperation s"
  "dropProgress (onDidSelectEdit sv j s) = dropProgress s"
  by (simp_all add: onDidSelectEdit_def Let_def split: option.splits)

lemma applyTokens_onDidSelectEdit: "applyTokens (onDidSelectEdit sv j s) \<subseteq> applyTokens s"
  by (auto simp: onDidSelectEdit_def Let_def applyTokens_def changesDocumentFor_def
      pendingToken_def split: option.splits call.splits)

lemma wellFormed_onDidSelectEdit:
  assumes "wellFormed s"
  shows "wellFormed (onDidSelectEdit sv j s)"
  by (rule wellFormed_others [OF assms _ _ _ _ applyTokens_onDidSelectEdit]) simp_all

lemma wellFormed_tokens:
  assumes "wellFormed s"
    and "\<forall>X. map_option (\<lambda>op. (tokenSourceDisposed op, opPhase op)) (operations s' X)
           = map_option (\<lambda>op. (tokenSourceDisposed op, opPhase op)) (operations s X)"
    and "operationIdPool s' = operationIdPool s"
    and "currentOperation s' = currentOperation s" and "dropProgress s' = dropProgress s"
    and "applyTokens s' = applyTokens s"
  shows "wellFormed s'"
proof -
  have ops: "operations s' X = Some op' \<Longrightarrow>
      \<exists>op. operations s X = Some op \<and> tokenSourceDisposed op' = tokenSourceDisposed op
         \<and> opPhase op' = opPhase op" for X op'
    using assms(2) [rule_format, of X] by (cases "operations s X") auto
  have ops': "operations s X = Some op \<Longrightarrow>
      \<exists>op'. operations s' X = Some op' \<and> tokenSourceDisposed op' = tokenSourceDisposed op
         \<and> opPhase op' = opPhase op" for X op
    using assms(2) [rule_format, of X] by (cases "operations s' X") auto
  have ph: "phaseOf s' X = phaseOf s X" for X
    using assms(2) [rule_format, of X]
    by (cases "operations s X"; cases "operations s' X") (auto simp: phaseOf_def)
  have 1: "idsBelowPool s'"
    using assms(1,3) ops by (fastforce simp: wellFormed_def idsBelowPool_def)
  have 2: "currentIsNewest s'"
    using assms(1,3,4) ops' by (fastforce simp: wellFormed_def currentIsNewest_def)
  have 3: "progressIsCurrent s'"
    using assms(1,4,5) by (simp add: wellFormed_def progressIsCurrent_def)
  have 4: "disposedIffDone s'"
    using assms(1) ops by (fastforce simp: wellFormed_def disposedIffDone_def)
  have 5: "appliersPastFanOut s'"
    using assms(1,6) by (simp add: wellFormed_def appliersPastFanOut_def ph)
  show ?thesis
    using 1 2 3 4 5 by (simp add: wellFormed_def)
qed

lemma wellFormed_cancelTokenSource: "wellFormed s \<Longrightarrow> wellFormed (cancelTokenSource X s)"
  by (rule wellFormed_tokens)
    (auto simp: cancelTokenSource_def operations_updateOperation option.map_comp comp_def)

lemma wellFormed_cancelPromise: "wellFormed s \<Longrightarrow> wellFormed (cancelPromise X s)"
  by (rule wellFormed_tokens)
    (auto simp: cancelPromise_def operations_updateOperation option.map_comp comp_def)

lemma wellFormed_editorStateChanged:
  "wellFormed s \<Longrightarrow> wellFormed (editorStateChanged (s\<lparr>edModel := m\<rparr>))"
  by (rule wellFormed_tokens)
    (auto simp: editorStateChanged_def option.map_comp comp_def applyTokens_def
      intro!: option.map_cong split: if_splits)

lemma wellFormed_newOperation:
  assumes "wellFormed s" and "\<not> isDone ph" and "beforeApply ph"
  shows "wellFormed
     (s\<lparr>dropProgress := None, edFocused := True, edPosition := Some position,
        operationIdPool := operationIdPool s + 1,
        operations := (operations s)(operationIdPool s \<mapsto>
          \<lparr>opPosition = position, opDragEvent = dragEvent, tokenCancelled = False,
           tokenSourceCancelled = False, tokenSourceDisposed = False, opPhase = ph\<rparr>),
        dropProgress := Some (position, operationIdPool s),
        currentOperation := Some (operationIdPool s)\<rparr>)" (is "wellFormed ?s'")
proof -
  have below: "operations s X \<noteq> None \<Longrightarrow> X < operationIdPool s" for X
    using assms(1) by (simp add: wellFormed_def idsBelowPool_def)
  have tokens: "applyTokens ?s' = applyTokens s"
    by (simp add: applyTokens_def)
  have 1: "idsBelowPool ?s'"
    using below by (auto simp: idsBelowPool_def less_Suc_eq)
  have 2: "currentIsNewest ?s'"
    using assms(2) by (simp add: currentIsNewest_def)
  have 3: "progressIsCurrent ?s'"
    by (simp add: progressIsCurrent_def)
  have 4: "disposedIffDone ?s'"
    using assms(1,2) by (auto simp: wellFormed_def disposedIffDone_def)
  have 5: "appliersPastFanOut ?s'"
    unfolding appliersPastFanOut_def tokens
  proof (intro conjI ballI allI impI)
    fix Y
    assume "Y \<in> applyTokens s"
    then obtain p where p: "phaseOf s Y = Some p" "\<not> beforeApply p"
      using assms(1) by (auto simp: wellFormed_def appliersPastFanOut_def)
    then have "Y \<noteq> operationIdPool s"
      using below [of Y] by (auto simp: phaseOf_def)
    then show "\<exists>p. phaseOf ?s' Y = Some p \<and> \<not> beforeApply p"
      using p by (auto simp: phaseOf_def)
  next
    fix Y f
    assume a: "phaseOf ?s' Y = Some (AwaitApply f)"
    then have "Y \<noteq> operationIdPool s"
      using assms(3) by (auto simp: phaseOf_def beforeApply_def)
    then have "phaseOf s Y = Some (AwaitApply f)"
      using a by (simp add: phaseOf_def)
    then show "afToken f = Y"
      using assms(1) by (simp add: wellFormed_def appliersPastFanOut_def)
  qed
  show ?thesis
    using 1 2 3 4 5 by (simp add: wellFormed_def)
qed

lemma cancelPromise_pool [simp]: "operationIdPool (cancelPromise c s) = operationIdPool s"
  by (simp add: cancelPromise_def)

lemma wellFormed_onDropIntoEditor:
  assumes "wellFormed s"
  shows "wellFormed (onDropIntoEditor sv position dragEvent s)"
proof (cases "dataTransfer dragEvent = None \<or> edModel s = None")
  case True
  then show ?thesis
    using assms by (simp add: onDropIntoEditor_def)
next
  case False
  let ?s1 = "case currentOperation s of None \<Rightarrow> s | Some c \<Rightarrow> cancelPromise c s"
  have wf1: "wellFormed ?s1"
    using assms by (simp add: wellFormed_cancelPromise split: option.splits)
  have pool: "operationIdPool ?s1 = operationIdPool s"
    by (simp split: option.splits)
  show ?thesis
    using False
      wellFormed_newOperation [OF wf1, of "AwaitExtract (extractDataTransferData sv dragEvent)"
        position dragEvent]
    by (auto simp: onDropIntoEditor_def Let_def isDone_def beforeApply_def pool)
qed

lemma wellFormed_step:
  assumes "wellFormed s"
  shows "wellFormed (step sv s ev)"
proof (cases ev)
  case (DropIntoEditor position dragEvent)
  then show ?thesis
    using assms by (simp add: step_def wellFormed_onDropIntoEditor)
next
  case (Resume X b)
  then show ?thesis
    using assms by (simp add: step_def wellFormed_resumeOperation)
next
  case (ResumeDetached k)
  then show ?thesis
    using assms by (simp add: step_def wellFormed_resumeDetached)
next
  case CancelClicked
  then show ?thesis
    using assms by (simp add: step_def wellFormed_cancelTokenSource split: option.splits)
next
  case EditorStateChanged
  then show ?thesis
    using wellFormed_editorStateChanged [OF assms, of "edModel s"] by (simp add: step_def)
next
  case (ModelChanged m)
  then show ?thesis
    using assms by (simp add: step_def wellFormed_editorStateChanged)
next
  case (OptionChanged v)
  have "wellFormed (s\<lparr>showDropSelector := v\<rparr>)"
    by (rule wellFormed_others [OF assms]) (simp_all add: applyTokens_def)
  then show ?thesis
    using OptionChanged by (simp add: step_def)
next
  case (SelectEdit j)
  then show ?thesis
    using assms by (simp add: step_def wellFormed_onDidSelectEdit)
qed

lemma wellFormed_run: "wellFormed s \<Longrightarrow> wellFormed (run sv s evs)"
  unfolding run_def by (induction evs arbitrary: s) (simp_all add: wellFormed_step)

lemma wellFormed_reachable: "wellFormed (run sv (initial ms m sel) evs)"
  by (rule wellFormed_run [OF wellFormed_initial])

subsection \<open>Completion of an operation\<close>

text \<open>
  What one continuation of an operation does to the controller: either the body leaves
  the \<open>try\<close> (the \<open>finally\<close> block runs on a state with the same slots), or the body is
  suspended again and the slots are the same.
\<close>

lemma resume_cases:
  assumes "operations s X = Some op" and "\<not> isDone (opPhase op)"
  shows "(\<exists>out t. step sv s (Resume X b) = settle X out t
            \<and> currentOperation t = currentOperation s \<and> dropProgress t = dropProgress s
            \<and> operations t = operations s)
       \<or> (\<exists>ph t. step sv s (Resume X b) = updateOperation X (\<lambda>op. op\<lparr>opPhase := ph\<rparr>) t
            \<and> currentOperation t = currentOperation s \<and> dropProgress t = dropProgress s
            \<and> operations t = operations s
            \<and> \<not> isDone ph \<and> awaitsLeft ph < awaitsLeft (opPhase op))"
proof (cases "opPhase op")
  case (AwaitExtract dt)
  show ?thesis
  proof (cases "dt_size dt = 0 \<or> tokenSourceCancelled op \<or> edModel s = None")
    case True
    then have "step sv s (Resume X b) = settle X Returned s"
      using assms(1) AwaitExtract
      by (auto simp: step_def resumeOperation_def afterExtract_def)
    then show ?thesis
      by blast
  next
    case False
    then obtain m where m: "edModel s = Some m"
      by auto
    let ?qs = "selectProviders (ordered sv (models s m)) dt"
    let ?ps = "map (\<lambda>provider. provideDocumentOnDropEdits provider (models s m) (opPosition op) dt) ?qs"
    let ?t = "s\<lparr>calls := calls s @ map (\<lambda>provider. ProvideCall X (providerName provider)) ?qs\<rparr>"
    have "step sv s (Resume X b) = updateOperation X (\<lambda>op. op\<lparr>opPhase := AwaitProviders ?ps\<rparr>) ?t"
      using assms(1) AwaitExtract False m
      by (simp add: step_def resumeOperation_def afterExtract_def Let_def updateOperation_def)
    moreover have "\<not> isDone (AwaitProviders ?ps)"
      "awaitsLeft (AwaitProviders ?ps) < awaitsLeft (opPhase op)"
      by (simp_all add: isDone_def awaitsLeft_def AwaitExtract)
    ultimately show ?thesis
      by (intro disjI2 exI [of _ "AwaitProviders ?ps"] exI [of _ ?t]) simp
  qed
next
  case (AwaitProviders ps)
  let ?r = "raceCancellation (promiseAll ps) (tokenSourceCancelled op) b"
  have st: "step sv s (Resume X b) = afterProviders sv X ps b s"
    using assms(1) AwaitProviders by (simp add: step_def resumeOperation_def)
  show ?thesis
  proof (cases ?r)
    case (Rejected e)
    then have "step sv s (Resume X b) = settle X (Threw e) s"
      using assms(1) by (simp add: st afterProviders_def)
    then show ?thesis
      by blast
  next
    case (Fulfilled v)
    show ?thesis
    proof (cases "tokenSourceCancelled op \<or> v = None")
      case True
      then have "step sv s (Resume X b) = settle X Returned s"
        using assms(1) Fulfilled by (auto simp: st afterProviders_def)
      then show ?thesis
        by blast
    next
      case False
      then obtain es where es: "v = Some es" and nc: "\<not> tokenSourceCancelled op"
        by auto
      let ?a = "applyDropResult sv (opPosition op) 0 (coalesce es) X s"
      have st': "step sv s (Resume X b) =
         (case ?a of (None, s') \<Rightarrow> settle X Returned s'
          | (Some frame, s') \<Rightarrow> updateOperation X (\<lambda>op. op\<lparr>opPhase := AwaitApply frame\<rparr>) s')"
        using assms(1) Fulfilled es nc by (simp add: st afterProviders_def)
      have fr: "currentOperation (snd ?a) = currentOperation s" "dropProgress (snd ?a) = dropProgress s"
        "operations (snd ?a) = operations s"
        by simp_all
      show ?thesis
      proof (cases "fst ?a")
        case None
        then have "step sv s (Resume X b) = settle X Returned (snd ?a)"
          by (cases ?a) (simp add: st')
        then show ?thesis
          using fr by blast
      next
        case (Some f)
        then have "step sv s (Resume X b) =
            updateOperation X (\<lambda>op. op\<lparr>opPhase := AwaitApply f\<rparr>) (snd ?a)"
          by (cases ?a) (simp add: st')
        moreover have "\<not> isDone (AwaitApply f)" "awaitsLeft (AwaitApply f) < awaitsLeft (opPhase op)"
          by (simp_all add: isDone_def awaitsLeft_def AwaitProviders)
        ultimately show ?thesis
          using fr by (intro disjI2 exI [of _ "AwaitApply f"] exI [of _ "snd ?a"]) simp
      qed
    qed
  qed
next
  case (AwaitApply f)
  have "step sv s (Resume X b) =
     settle X (fst (applyDropResult_resume sv f s)) (snd (applyDropResult_resume sv f s))"
    using assms(1) AwaitApply by (intro step_resume_apply) (simp add: phaseOf_def)
  then show ?thesis
    by (intro disjI1 exI [of _ "fst (applyDropResult_resume sv f s)"]
        exI [of _ "snd (applyDropResult_resume sv f s)"]) simp
next
  case (Done out)
  then show ?thesis
    using assms(2) by (simp add: isDone_def)
qed

lemma awaitsLeft_zero: "awaitsLeft ph = 0 \<longleftrightarrow> isDone ph"
  by (simp add: awaitsLeft_def isDone_def split: phase.splits)

lemma awaitsLeft_le: "awaitsLeft ph \<le> 3"
  by (simp add: awaitsLeft_def split: phase.splits)

lemma resume_awaitsLeft:
  assumes "phaseOf s X = Some ph"
  shows "\<exists>ph'. phaseOf (step sv s (Resume X b)) X = Some ph'
           \<and> awaitsLeft ph' \<le> awaitsLeft ph - 1"
proof -
  obtain op where op: "operations s X = Some op" "opPhase op = ph"
    using assms by (auto simp: phaseOf_def)
  show ?thesis
  proof (cases "isDone ph")
    case True
    then have "step sv s (Resume X b) = s"
      using op by (auto simp: step_def resumeOperation_def isDone_def split: phase.splits)
    moreover have "awaitsLeft ph = 0"
      using True by (simp add: awaitsLeft_zero)
    ultimately show ?thesis
      using assms by simp
  next
    case False
    then have nd: "\<not> isDone (opPhase op)"
      using op by simp
    from resume_cases [OF op(1) nd, of sv b] show ?thesis
    proof (elim disjE exE conjE)
      fix out t
      assume "step sv s (Resume X b) = settle X out t" "operations t = operations s"
      then have "phaseOf (step sv s (Resume X b)) X = Some (Done out)"
        using op by (simp add: phaseOf_settle)
      then show ?thesis
        by (simp add: awaitsLeft_def)
    next
      fix ph' t
      assume "step sv s (Resume X b) = updateOperation X (\<lambda>op. op\<lparr>opPhase := ph'\<rparr>) t"
        "operations t = operations s" "awaitsLeft ph' < awaitsLeft (opPhase op)"
      then have "phaseOf (step sv s (Resume X b)) X = Some ph'" "awaitsLeft ph' \<le> awaitsLeft ph - 1"
        using op by (simp_all add: phaseOf_updateOperation)
      then show ?thesis
        by blast
    qed
  qed
qed

lemma three_resumes_complete:
  assumes "phaseOf s X = Some ph"
  shows "\<exists>out. phaseOf (run sv s [Resume X a, Resume X b, Resume X c]) X = Some (Done out)"
proof -
  obtain p1 where p1: "phaseOf (step sv s (Resume X a)) X = Some p1"
    "awaitsLeft p1 \<le> awaitsLeft ph - 1"
    using resume_awaitsLeft [OF assms] by blast
  obtain p2 where p2: "phaseOf (step sv (step sv s (Resume X a)) (Resume X b)) X = Some p2"
    "awaitsLeft p2 \<le> awaitsLeft p1 - 1"
    using resume_awaitsLeft [OF p1(1)] by blast
  obtain p3 where p3:
    "phaseOf (step sv (step sv (step sv s (Resume X a)) (Resume X b)) (Resume X c)) X = Some p3"
    "awaitsLeft p3 \<le> awaitsLeft p2 - 1"
    using resume_awaitsLeft [OF p2(1)] by blast
  have "awaitsLeft p3 = 0"
    using p1(2) p2(2) p3(2) awaitsLeft_le [of ph] by simp
  then have "isDone p3"
    by (simp add: awaitsLeft_zero)
  then obtain out where "p3 = Done out"
    by (auto simp: isDone_def split: phase.splits)
  then show ?thesis
    using p3(1) by (simp add: run_def)
qed

text \<open>
  C1. In a reachable state, for an operation that is not over:
  \<^item> resumed (at most three times), it is over: its body always leaves the \<open>try\<close>;
  \<^item> the continuation that ends it, by a return or by an exception, has disposed its token
    source, and has cleared the progress indicator and the current operation if the
    current operation was this one, and left both as they were otherwise;
  \<^item> a continuation that does not end it leaves both as they were, and the token source
    is not disposed;
  \<^item> when a newer operation has started since (its id is not the newest), no
    continuation of it changes the progress indicator, the current operation or the
    record of any other operation.
\<close>

theorem finalization_on_completion:
  assumes "s = run sv (initial ms m sel) evs"
    and "operations s X = Some op" and "\<not> isDone (opPhase op)"
  shows "(\<exists>out. phaseOf (run sv s [Resume X a, Resume X b, Resume X c]) X = Some (Done out))
     \<and> ((\<exists>out. phaseOf (step sv s (Resume X b)) X = Some (Done out)) \<longrightarrow>
          (\<exists>op'. operations (step sv s (Resume X b)) X = Some op' \<and> tokenSourceDisposed op')
          \<and> (if currentOperation s = Some X
              then dropProgress (step sv s (Resume X b)) = None
                   \<and> currentOperation (step sv s (Resume X b)) = None
              else dropProgress (step sv s (Resume X b)) = dropProgress s
                   \<and> currentOperation (step sv s (Resume X b)) = currentOperation s))
     \<and> ((\<forall>out. phaseOf (step sv s (Resume X b)) X \<noteq> Some (Done out)) \<longrightarrow>
          dropProgress (step sv s (Resume X b)) = dropProgress s
          \<and> currentOperation (step sv s (Resume X b)) = currentOperation s
          \<and> (\<exists>op'. operations (step sv s (Resume X b)) X = Some op'
                \<and> \<not> tokenSourceDisposed op'))
     \<and> (Suc X < operationIdPool s \<longrightarrow>
          dropProgress (step sv s (Resume X b)) = dropProgress s
          \<and> currentOperation (step sv s (Resume X b)) = currentOperation s
          \<and> (\<forall>Y. Y \<noteq> X \<longrightarrow>
                operations (step sv s (Resume X b)) Y = operations s Y))"
proof -
  let ?s' = "step sv s (Resume X b)"
  have wf: "wellFormed s"
    unfolding assms(1) by (rule wellFormed_reachable)
  have nodisp: "\<not> tokenSourceDisposed op"
    using wf assms(2,3) by (auto simp: wellFormed_def disposedIffDone_def)
  have newest: "currentOperation s = Some X \<Longrightarrow> Suc X = operationIdPool s"
    using wf by (auto simp: wellFormed_def currentIsNewest_def)
  have ph: "phaseOf s X = Some (opPhase op)"
    using assms(2) by (simp add: phaseOf_def)
  have A: "\<exists>out. phaseOf (run sv s [Resume X a, Resume X b, Resume X c]) X = Some (Done out)"
    by (rule three_resumes_complete [OF ph])
  from resume_cases [OF assms(2,3), of sv b]
  have BCD: "((\<exists>out. phaseOf ?s' X = Some (Done out)) \<longrightarrow>
          (\<exists>op'. operations ?s' X = Some op' \<and> tokenSourceDisposed op')
          \<and> (if currentOperation s = Some X
              then dropProgress ?s' = None \<and> currentOperation ?s' = None
              else dropProgress ?s' = dropProgress s
                   \<and> currentOperation ?s' = currentOperation s))
     \<and> ((\<forall>out. phaseOf ?s' X \<noteq> Some (Done out)) \<longrightarrow>
          dropProgress ?s' = dropProgress s \<and> currentOperation ?s' = currentOperation s
          \<and> (\<exists>op'. operations ?s' X = Some op' \<and> \<not> tokenSourceDisposed op'))
     \<and> (Suc X < operationIdPool s \<longrightarrow>
          dropProgress ?s' = dropProgress s \<and> currentOperation ?s' = currentOperation s
          \<and> (\<forall>Y. Y \<noteq> X \<longrightarrow> operations ?s' Y = operations s Y))"
  proof (elim disjE exE conjE)
    fix out t
    assume t: "?s' = settle X out t" "currentOperation t = currentOperation s"
      "dropProgress t = dropProgress s" "operations t = operations s"
    have "phaseOf ?s' X = Some (Done out)"
      using t assms(2) by (simp add: phaseOf_settle)
    moreover have "\<exists>op'. operations ?s' X = Some op' \<and> tokenSourceDisposed op'"
      using t assms(2) by (simp add: operations_settle)
    moreover have "\<forall>Y. Y \<noteq> X \<longrightarrow> operations ?s' Y = operations s Y"
      using t by (simp add: operations_settle)
    ultimately show ?thesis
      using t newest by auto
  next
    fix p t
    assume t: "?s' = updateOperation X (\<lambda>op. op\<lparr>opPhase := p\<rparr>) t"
      "currentOperation t = currentOperation s" "dropProgress t = dropProgress s"
      "operations t = operations s" "\<not> isDone p"
    have "phaseOf ?s' X = Some p"
      using t assms(2) by (simp add: phaseOf_updateOperation)
    then have "\<forall>out. phaseOf ?s' X \<noteq> Some (Done out)"
      using t(5) by (auto simp: isDone_def)
    moreover have "\<exists>op'. operations ?s' X = Some op' \<and> \<not> tokenSourceDisposed op'"
      using t assms(2) nodisp by (simp add: operations_updateOperation)
    moreover have "\<forall>Y. Y \<noteq> X \<longrightarrow> operations ?s' Y = operations s Y"
      using t by (simp add: operations_updateOperation)
    ultimately show ?thesis
      using t by auto
  qed
  show ?thesis
    using A BCD by blast
qed

lemma exSuperseded_fields:
  "operations exSuperseded 0 =
     Some (exOperation\<lparr>tokenCancelled := True, tokenSourceCancelled := True\<rparr>)"
  "operationIdPool exSuperseded = 2"
  "currentOperation exSuperseded = Some 1"
  "dropProgress exSuperseded = Some (exPosition, 1)"
  "phaseOf (step exServices exSuperseded (Resume 0 False)) 0 = Some (Done Returned)"
  by (simp_all add: exSuperseded_def exOperation_def model_defs ex_defs)

lemma exCancelled_fields:
  "operations exCancelled 0 = Some (exOperation\<lparr>tokenSourceCancelled := True\<rparr>)"
  "currentOperation exCancelled = Some 0"
  "dropProgress exCancelled = Some (exPosition, 0)"
  "phaseOf (step exServices exCancelled (Resume 0 False)) 0 = Some (Done Returned)"
  by (simp_all add: exCancelled_def exOperation_def model_defs ex_defs)

theorem finalization_on_completion_witness:
  "operations exSuperseded 0 =
     Some (exOperation\<lparr>tokenCancelled := True, tokenSourceCancelled := True\<rparr>)
   \<and> \<not> isDone (opPhase (exOperation\<lparr>tokenCancelled := True, tokenSourceCancelled := True\<rparr>))
   \<and> Suc 0 < operationIdPool exSuperseded
   \<and> phaseOf (step exServices exSuperseded (Resume 0 False)) 0 = Some (Done Returned)
   \<and> currentOperation (step exServices exSuperseded (Resume 0 False)) = Some 1
   \<and> dropProgress (step exServices exSuperseded (Resume 0 False)) = Some (exPosition, 1)
   \<and> operations (step exServices exSuperseded (Resume 0 False)) 1 = operations exSuperseded 1
   \<and> operations exCancelled 0 = Some (exOperation\<lparr>tokenSourceCancelled := True\<rparr>)
   \<and> currentOperation exCancelled = Some 0
   \<and> phaseOf (step exServices exCancelled (Resume 0 False)) 0 = Some (Done Returned)
   \<and> currentOperation (step exServices exCancelled (Resume 0 False)) = None
   \<and> dropProgress (step exServices exCancelled (Resume 0 False)) = None
   \<and> (\<exists>op'. operations (step exServices exCancelled (Resume 0 False)) 0 = Some op'
          \<and> tokenSourceDisposed op')"
proof -
  have r1: "exSuperseded = run exServices (initial (\<lambda>i. exModel) (Some 0) ''afterDrop'')
       [DropIntoEditor exPosition exDrag, DropIntoEditor exPosition exDrag]"
    by (simp add: exSuperseded_def exInitial_def)
  have r2: "exCancelled = run exServices (initial (\<lambda>i. exModel) (Some 0) ''afterDrop'')
       [DropIntoEditor exPosition exDrag, EditorStateChanged]"
    by (simp add: exCancelled_def exInitial_def)
  have nd1: "\<not> isDone (opPhase (exOperation\<lparr>tokenCancelled := True, tokenSourceCancelled := True\<rparr>))"
    and nd2: "\<not> isDone (opPhase (exOperation\<lparr>tokenSourceCancelled := True\<rparr>))"
    by (simp_all add: exOperation_def isDone_def)
  note t1 = finalization_on_completion [OF r1 exSuperseded_fields(1) nd1, of False False False]
  note t2 = finalization_on_completion [OF r2 exCancelled_fields(1) nd2, of False False False]
  have a: "currentOperation (step exServices exSuperseded (Resume 0 False)) = Some 1
     \<and> dropProgress (step exServices exSuperseded (Resume 0 False)) = Some (exPosition, 1)
     \<and> operations (step exServices exSuperseded (Resume 0 False)) 1 = operations exSuperseded 1"
    using t1 by (simp add: exSuperseded_fields)
  have b: "currentOperation (step exServices exCancelled (Resume 0 False)) = None
     \<and> dropProgress (step exServices exCancelled (Resume 0 False)) = None
     \<and> (\<exists>op'. operations (step exServices exCancelled (Resume 0 False)) 0 = Some op'
          \<and> tokenSourceDisposed op')"
    using t2 by (simp add: exCancelled_fields)
  show ?thesis
    using a b nd1 by (simp add: exSuperseded_fields exCancelled_fields)
qed

subsection \<open>A token that fired before the edit-apply step\<close>

lemma resume_cancelled:
  assumes "operations s X = Some op" and "beforeApply (opPhase op)"
    and "tokenSourceCancelled op"
  shows "\<exists>out. step sv s (Resume X b) = settle X out s"
proof (cases "opPhase op")
  case (AwaitExtract dt)
  then have "step sv s (Resume X b) = settle X Returned s"
    using assms by (simp add: step_def resumeOperation_def afterExtract_def)
  then show ?thesis
    by blast
next
  case (AwaitProviders ps)
  show ?thesis
  proof (cases "raceCancellation (promiseAll ps) (tokenSourceCancelled op) b")
    case (Rejected e)
    then have "step sv s (Resume X b) = settle X (Threw e) s"
      using assms AwaitProviders by (simp add: step_def resumeOperation_def afterProviders_def)
    then show ?thesis
      by blast
  next
    case (Fulfilled v)
    then have "step sv s (Resume X b) = settle X Returned s"
      using assms AwaitProviders by (simp add: step_def resumeOperation_def afterProviders_def)
    then show ?thesis
      by blast
  qed
next
  case (AwaitApply f)
  then show ?thesis
    using assms(2) by (simp add: beforeApply_def)
next
  case (Done out)
  then show ?thesis
    using assms(2) by (simp add: beforeApply_def)
qed

lemma onDropIntoEditor_frame [simp]:
  "calls (onDropIntoEditor sv position dragEvent s) = calls s"
  "postDropWidget (onDropIntoEditor sv position dragEvent s) = postDropWidget s"
  "detached (onDropIntoEditor sv position dragEvent s) = detached s"
  "models (onDropIntoEditor sv position dragEvent s) = models s"
  by (simp_all add: onDropIntoEditor_def Let_def cancelPromise_def split: option.splits)

lemma applyTokens_applyDropResult_pair:
  assumes "applyDropResult sv position i es tok s = (r, s')" and "Y \<in> applyTokens s'"
  shows "Y = tok \<or> Y \<in> applyTokens s"
  using applyTokens_applyDropResult [of sv position i es tok s] assms by auto

lemma applyTokens_resumeOperation:
  assumes "wellFormed s"
  shows "applyTokens (resumeOperation sv Y b s) \<subseteq> insert Y (applyTokens s)"
proof (cases "operations s Y")
  case None
  then show ?thesis
    by (auto simp: resumeOperation_def)
next
  case (Some op)
  show ?thesis
  proof (cases "opPhase op")
    case (AwaitExtract dt)
    have "applyTokens (afterExtract sv Y dt s) = applyTokens s"
      by (auto simp: afterExtract_def Let_def applyTokens_def changesDocumentFor_def
          split: option.splits)
    then show ?thesis
      using Some AwaitExtract by (auto simp: resumeOperation_def)
  next
    case (AwaitProviders ps)
    have "applyTokens (afterProviders sv Y ps b s) \<subseteq> insert Y (applyTokens s)"
      using Some
      by (auto simp: afterProviders_def split: settled.splits option.splits prod.splits
          dest: applyTokens_applyDropResult_pair)
    then show ?thesis
      using Some AwaitProviders by (auto simp: resumeOperation_def)
  next
    case (AwaitApply f)
    have "afToken f = Y"
      using assms Some AwaitApply by (auto simp: wellFormed_def appliersPastFanOut_def phaseOf_def)
    then have "applyTokens (afterApply sv Y f s) \<subseteq> insert Y (applyTokens s)"
      using applyTokens_resume [of sv f s]
      by (cases "applyDropResult_resume sv f s") (auto simp: afterApply_def)
    then show ?thesis
      using Some AwaitApply by (auto simp: resumeOperation_def)
  next
    case (Done out)
    then show ?thesis
      using Some by (auto simp: resumeOperation_def)
  qed
qed

lemma operations_resume_other:
  assumes "Y \<noteq> X"
  shows "operations (step sv s (Resume Y b)) X = operations s X"
proof (cases "operations s Y")
  case None
  then show ?thesis
    by (simp add: step_def resumeOperation_def)
next
  case (Some op)
  show ?thesis
  proof (cases "isDone (opPhase op)")
    case True
    then show ?thesis
      using Some by (auto simp: step_def resumeOperation_def isDone_def split: phase.splits)
  next
    case False
    from resume_cases [OF Some False, of sv b] show ?thesis
      using assms by (auto simp: operations_settle operations_updateOperation)
  qed
qed

text \<open>Other events keep the phase of an operation and never reset a fired token source.\<close>

lemma operation_kept:
  assumes "operations s X = Some op" and "X < operationIdPool s"
    and "\<forall>b. ev \<noteq> Resume X b"
  shows "\<exists>op'. operations (step sv s ev) X = Some op' \<and> opPhase op' = opPhase op
           \<and> (tokenSourceCancelled op \<longrightarrow> tokenSourceCancelled op')"
proof (cases ev)
  case (DropIntoEditor position dragEvent)
  then show ?thesis
    using assms(1,2)
    by (auto simp: step_def onDropIntoEditor_def Let_def cancelPromise_def
        operations_updateOperation split: option.splits)
next
  case (Resume Y b)
  then have "Y \<noteq> X"
    using assms(3) by auto
  then show ?thesis
    using assms(1) Resume by (simp add: operations_resume_other)
next
  case (ResumeDetached k)
  then show ?thesis
    using assms(1) by (simp add: step_def)
next
  case CancelClicked
  then show ?thesis
    using assms(1)
    by (auto simp: step_def cancelTokenSource_def operations_updateOperation
        split: option.splits)
next
  case EditorStateChanged
  then show ?thesis
    using assms(1) by (simp add: step_def editorStateChanged_def)
next
  case (ModelChanged m)
  then show ?thesis
    using assms(1) by (simp add: step_def editorStateChanged_def)
next
  case (OptionChanged v)
  then show ?thesis
    using assms(1) by (simp add: step_def)
next
  case (SelectEdit j)
  then show ?thesis
    using assms(1) by (simp add: step_def)
qed

lemma applyTokens_step:
  assumes "wellFormed s"
  shows "applyTokens (step sv s ev) \<subseteq>
           applyTokens s \<union> (case ev of Resume Y b \<Rightarrow> {Y} | _ \<Rightarrow> {})"
proof (cases ev)
  case (DropIntoEditor position dragEvent)
  have "applyTokens (onDropIntoEditor sv position dragEvent s) = applyTokens s"
    by (rule applyTokens_cong) simp_all
  then show ?thesis
    using DropIntoEditor by (simp add: step_def)
next
  case (Resume Y b)
  then show ?thesis
    using applyTokens_resumeOperation [OF assms, of sv Y b] by (auto simp: step_def)
next
  case (ResumeDetached k)
  then show ?thesis
    using applyTokens_resumeDetached [of sv k s] by (auto simp: step_def)
next
  case CancelClicked
  then show ?thesis
    by (auto simp: step_def cancelTokenSource_def split: option.splits)
next
  case EditorStateChanged
  then show ?thesis
    by (auto simp: step_def editorStateChanged_def applyTokens_def)
next
  case (ModelChanged m)
  then show ?thesis
    by (auto simp: step_def editorStateChanged_def applyTokens_def)
next
  case (OptionChanged v)
  then show ?thesis
    by (auto simp: step_def applyTokens_def)
next
  case (SelectEdit j)
  then show ?thesis
    using applyTokens_onDidSelectEdit [of sv j s] by (auto simp: step_def)
qed

lemma pool_applyDropResult_pair:
  "applyDropResult sv p i es tok s = (r, s') \<Longrightarrow> operationIdPool s' = operationIdPool s"
  using applyDropResult_frame(8) [of sv p i es tok s] by simp

lemma pool_resume_pair:
  "applyDropResult_resume sv f s = (out, s') \<Longrightarrow> operationIdPool s' = operationIdPool s"
  using applyDropResult_resume_frame(7) [of sv f s] by simp

lemma pool_resumeOperation [simp]:
  "operationIdPool (resumeOperation sv Y b s) = operationIdPool s"
proof (cases "operations s Y")
  case None
  then show ?thesis
    by (simp add: resumeOperation_def)
next
  case (Some op)
  show ?thesis
  proof (cases "opPhase op")
    case (AwaitExtract dt)
    then show ?thesis
      using Some by (simp add: resumeOperation_def afterExtract_def Let_def split: option.splits)
  next
    case (AwaitProviders ps)
    show ?thesis
      using Some AwaitProviders
      by (auto simp: resumeOperation_def afterProviders_def pool_applyDropResult_pair
          split: settled.splits option.splits prod.splits)
  next
    case (AwaitApply f)
    then show ?thesis
      using Some
      by (cases "applyDropResult_resume sv f s")
        (auto simp: resumeOperation_def afterApply_def pool_resume_pair)
  next
    case (Done out)
    then show ?thesis
      using Some by (simp add: resumeOperation_def)
  qed
qed

lemma pool_step: "operationIdPool s \<le> operationIdPool (step sv s ev)"
  by (cases ev)
    (auto simp: step_def onDropIntoEditor_def Let_def cancelTokenSource_def
      editorStateChanged_def split: option.splits)

lemma abandoned_step:
  assumes "wellFormed s" and "abandonedBeforeApply X s"
  shows "abandonedBeforeApply X (step sv s ev)"
proof -
  obtain op where op: "operations s X = Some op" "X < operationIdPool s" "X \<notin> applyTokens s"
    and ph: "isDone (opPhase op) \<or> beforeApply (opPhase op) \<and> tokenSourceCancelled op"
    using assms(2) by (auto simp: abandonedBeforeApply_def)
  have pool: "X < operationIdPool (step sv s ev)"
    using op(2) pool_step [of s sv ev] by simp
  show ?thesis
  proof (cases "\<exists>b. ev = Resume X b")
    case True
    then obtain b where ev: "ev = Resume X b"
      by blast
    show ?thesis
    proof (cases "isDone (opPhase op)")
      case True
      then have "step sv s ev = s"
        using op(1) ev by (auto simp: step_def resumeOperation_def isDone_def split: phase.splits)
      then show ?thesis
        using assms(2) by simp
    next
      case False
      then obtain out where "step sv s ev = settle X out s"
        using resume_cancelled [OF op(1), of sv b] ph ev by auto
      then show ?thesis
        using op pool by (simp add: abandonedBeforeApply_def operations_settle isDone_def)
    qed
  next
    case False
    then have other: "\<forall>b. ev \<noteq> Resume X b"
      by simp
    obtain op' where op': "operations (step sv s ev) X = Some op'" "opPhase op' = opPhase op"
      "tokenSourceCancelled op \<longrightarrow> tokenSourceCancelled op'"
      using operation_kept [OF op(1,2) other, of sv] by blast
    have "X \<notin> applyTokens (step sv s ev)"
      using applyTokens_step [OF assms(1), of sv ev] op(3) other
      by (cases ev) auto
    then show ?thesis
      using op' ph pool by (auto simp: abandonedBeforeApply_def)
  qed
qed

lemma abandoned_run:
  assumes "wellFormed s" and "abandonedBeforeApply X s"
  shows "abandonedBeforeApply X (run sv s evs)"
  using assms unfolding run_def
  by (induction evs arbitrary: s) (simp_all add: wellFormed_step abandoned_step)

lemma abandoned_no_calls:
  assumes "abandonedBeforeApply X s"
  shows "filter (changesDocumentFor X) (calls s) = []"
  using assms by (auto simp: abandonedBeforeApply_def applyTokens_def filter_empty_conv)

text \<open>
  C3. In a reachable state, an operation is suspended before the edit-apply step (at
  line 80 or at line 100) and its token source has fired. Then its next continuation
  ends it without a call to any collaborator and without a change to any text model; and
  whatever events follow, in any order, the bulk edit service and the undo are never
  called on behalf of this operation.
\<close>

theorem cancelled_before_apply_changes_nothing:
  assumes "s = run sv (initial ms m sel) evs0"
    and "operations s X = Some op" and "beforeApply (opPhase op)"
    and "tokenSourceCancelled op"
  shows "(\<exists>out. phaseOf (step sv s (Resume X b)) X = Some (Done out))
     \<and> calls (step sv s (Resume X b)) = calls s
     \<and> models (step sv s (Resume X b)) = models s
     \<and> (\<forall>evs. filter (changesDocumentFor X) (calls (run sv s evs)) = [])"
proof -
  have wf: "wellFormed s"
    unfolding assms(1) by (rule wellFormed_reachable)
  obtain out where out: "step sv s (Resume X b) = settle X out s"
    using resume_cancelled [OF assms(2-4)] by blast
  have 1: "phaseOf (step sv s (Resume X b)) X = Some (Done out)"
    using assms(2) by (simp add: out phaseOf_settle)
  have "X < operationIdPool s"
    using wf assms(2) by (auto simp: wellFormed_def idsBelowPool_def)
  moreover have "X \<notin> applyTokens s"
    by (rule not_applier_before_apply [OF wf assms(2,3)])
  ultimately have "abandonedBeforeApply X s"
    using assms(2-4) by (simp add: abandonedBeforeApply_def)
  then have "filter (changesDocumentFor X) (calls (run sv s evs)) = []" for evs
    by (intro abandoned_no_calls abandoned_run [OF wf])
  then show ?thesis
    using 1 by (simp add: out)
qed

lemma exCancelledLate_fields:
  "operations exCancelledLate 0 =
     Some (exOperation\<lparr>tokenSourceCancelled := True,
            opPhase := AwaitProviders [Fulfilled (Some exC1), Fulfilled (Some exC2)]\<rparr>)"
  "calls exCancelledLate = [ProvideCall 0 ''plain'', ProvideCall 0 ''any'']"
  "doc (models exCancelledLate 0) = [''hello'']"
  by (simp_all add: exCancelledLate_def exOperation_def model_defs specSelected_def
      exServices_def exInitial_def exModel_def exPosition_def exDrag_def exPlain_def
      exUriList_def exAny_def)

theorem cancelled_before_apply_changes_nothing_witness:
  "operations exCancelledLate 0 =
     Some (exOperation\<lparr>tokenSourceCancelled := True,
            opPhase := AwaitProviders [Fulfilled (Some exC1), Fulfilled (Some exC2)]\<rparr>)
   \<and> beforeApply (AwaitProviders [Fulfilled (Some exC1), Fulfilled (Some exC2)])
   \<and> phaseOf (step exServices exCancelledLate (Resume 0 False)) 0 = Some (Done Returned)
   \<and> calls (step exServices exCancelledLate (Resume 0 False))
       = [ProvideCall 0 ''plain'', ProvideCall 0 ''any'']
   \<and> doc (models (step exServices exCancelledLate (Resume 0 False)) 0) = [''hello'']
   \<and> filter (changesDocumentFor 0)
        (calls (run exServices exCancelledLate
           [Resume 0 False, DropIntoEditor exPosition exDrag, Resume 0 False, SelectEdit 1]))
       = []"
proof -
  let ?op = "exOperation\<lparr>tokenSourceCancelled := True,
            opPhase := AwaitProviders [Fulfilled (Some exC1), Fulfilled (Some exC2)]\<rparr>"
  have r: "exCancelledLate = run exServices (initial (\<lambda>i. exModel) (Some 0) ''afterDrop'')
       [DropIntoEditor exPosition exDrag, Resume 0 False, CancelClicked]"
    by (simp add: exCancelledLate_def exInitial_def)
  have b: "beforeApply (opPhase ?op)" and c: "tokenSourceCancelled ?op"
    by (simp_all add: beforeApply_def)
  have p: "phaseOf (step exServices exCancelledLate (Resume 0 False)) 0 = Some (Done Returned)"
    by (simp add: step_def resumeOperation_def afterProviders_def exCancelledLate_fields(1)
        raceCancellation_def phaseOf_settle)
  note t = cancelled_before_apply_changes_nothing [OF r exCancelledLate_fields(1) b c, of False]
  show ?thesis
    using t p b by (simp add: exCancelledLate_fields)
qed

end
